theory Spec2Isabelle
  imports Main
begin


section \<open>Python values\<close>

text \<open>
  The watchdog reads its configuration and its status file with \<open>json.loads\<close> and
  treats the result as an untyped dictionary.  A parsed JSON value is modelled by the
  datatype below; a Python \<open>dict\<close> is an association list with distinct keys, in
  insertion order.  JSON numbers are restricted to integers: floating-point literals are
  outside the model.  A \<open>string\<close> is a sequence of code points below 256.
\<close>

datatype json =
    JNull
  | JBool bool
  | JInt int
  | JStr string
  | JList "json list"
  | JObj "(string \<times> json) list"

type_synonym dict = "(string \<times> json) list"

text \<open>Exceptions are values; the payload is the message that \<open>str(exc)\<close> gives.\<close>

datatype error =
    AttributeError string
  | TypeError string
  | ValueError string
  | OSError string

fun exc_str :: "error \<Rightarrow> string" where
  "exc_str (AttributeError m) = m"
| "exc_str (TypeError m) = m"
| "exc_str (ValueError m) = m"
| "exc_str (OSError m) = m"

definition bindE :: "error + 'a \<Rightarrow> ('a \<Rightarrow> error + 'b) \<Rightarrow> error + 'b" where
  "bindE m f = (case m of Inl e \<Rightarrow> Inl e | Inr x \<Rightarrow> f x)"

text \<open>Truth value of a Python object (\<open>bool(x)\<close>, \<open>not x\<close>, \<open>x or y\<close>).\<close>

fun truthy :: "json \<Rightarrow> bool" where
  "truthy JNull = False"
| "truthy (JBool b) = b"
| "truthy (JInt i) = (i \<noteq> 0)"
| "truthy (JStr s) = (s \<noteq> [])"
| "truthy (JList xs) = (xs \<noteq> [])"
| "truthy (JObj kvs) = (kvs \<noteq> [])"

text \<open>\<open>d.get(k) or dflt\<close>: a missing key gives \<open>None\<close>, which is falsy.\<close>

definition get_or :: "dict \<Rightarrow> string \<Rightarrow> json \<Rightarrow> json" where
  "get_or d k dflt =
     (case map_of d k of None \<Rightarrow> dflt | Some v \<Rightarrow> if truthy v then v else dflt)"

text \<open>\<open>bool(d.get(k, True))\<close>: only a missing key gives the default.\<close>

definition get_flag :: "dict \<Rightarrow> string \<Rightarrow> bool" where
  "get_flag d k = (case map_of d k of None \<Rightarrow> True | Some v \<Rightarrow> truthy v)"

fun type_name :: "json \<Rightarrow> string" where
  "type_name JNull = ''NoneType''"
| "type_name (JBool b) = ''bool''"
| "type_name (JInt i) = ''int''"
| "type_name (JStr s) = ''str''"
| "type_name (JList xs) = ''list''"
| "type_name (JObj kvs) = ''dict''"

text \<open>Calling \<open>.get\<close> on a value: only a dictionary has the method.\<close>

definition as_dict :: "json \<Rightarrow> error + dict" where
  "as_dict v =
     (case v of
        JObj kvs \<Rightarrow> Inr kvs
      | _ \<Rightarrow> Inl (AttributeError
                 ([CHR 0x27] @ type_name v @ [CHR 0x27] @ '' object has no attribute '' @
                  [CHR 0x27] @ ''get'' @ [CHR 0x27])))"

text \<open>
  Iterating a value in a \<open>for\<close>: a list gives its elements, a string its characters,
  a dictionary its keys; \<open>None\<close>, a bool or an int raises \<open>TypeError\<close>.
\<close>

definition py_iter :: "json \<Rightarrow> error + json list" where
  "py_iter v =
     (case v of
        JList xs \<Rightarrow> Inr xs
      | JStr s \<Rightarrow> Inr (map (\<lambda>c. JStr [c]) s)
      | JObj kvs \<Rightarrow> Inr (map (\<lambda>kv. JStr (fst kv)) kvs)
      | _ \<Rightarrow> Inl (TypeError
                 ([CHR 0x27] @ type_name v @ [CHR 0x27] @ '' object is not iterable'')))"

subsection \<open>Strings\<close>

definition ord :: "char \<Rightarrow> nat" where
  "ord c = of_char c"

text \<open>\<open>str.lower\<close> on code points below 256: A..Z and the capital letters of Latin-1.\<close>

definition lower_char :: "char \<Rightarrow> char" where
  "lower_char c =
     (if (65 \<le> ord c \<and> ord c \<le> 90) \<or> (192 \<le> ord c \<and> ord c \<le> 222 \<and> ord c \<noteq> 215)
      then char_of (ord c + 32) else c)"

definition lower :: "string \<Rightarrow> string" where
  "lower s = map lower_char s"

definition startswith :: "string \<Rightarrow> string \<Rightarrow> bool" where
  "startswith s p = (take (length p) s = p)"

text \<open>\<open>n in t\<close> for strings: \<open>n\<close> occurs in \<open>t\<close> as a contiguous substring.\<close>

fun py_in :: "string \<Rightarrow> string \<Rightarrow> bool" where
  "py_in n [] = (n = [])"
| "py_in n (c # cs) = (startswith (c # cs) n \<or> py_in n cs)"

text \<open>\<open>str.isspace\<close> of one character, the set that \<open>str.strip()\<close> removes.\<close>

definition isspace :: "char \<Rightarrow> bool" where
  "isspace c = (ord c \<in> {9, 10, 11, 12, 13, 28, 29, 30, 31, 32, 133, 160})"

definition strip :: "string \<Rightarrow> string" where
  "strip s = rev (dropWhile isspace (rev (dropWhile isspace s)))"

text \<open>Decimal digits of a natural number and \<open>str\<close> of an integer.\<close>

fun show_nat :: "nat \<Rightarrow> string" where
  "show_nat n =
     (if n < 10 then [''0123456789'' ! n]
      else show_nat (n div 10) @ [''0123456789'' ! (n mod 10)])"

definition show_int :: "int \<Rightarrow> string" where
  "show_int i = (if i < 0 then ''-'' @ show_nat (nat (- i)) else show_nat (nat i))"

text \<open>
  \<open>repr\<close> of a string: single quotes unless the string has a single quote and no double
  quote; backslash, the quote, tab, newline and carriage return are escaped, every other
  non-printable character is written \<open>\xNN\<close>.
\<close>

definition hex2 :: "nat \<Rightarrow> string" where
  "hex2 n = [''0123456789abcdef'' ! (n div 16), ''0123456789abcdef'' ! (n mod 16)]"

definition printable :: "char \<Rightarrow> bool" where
  "printable c = ((32 \<le> ord c \<and> ord c < 127) \<or> (161 \<le> ord c \<and> ord c \<noteq> 173))"

definition repr_char :: "char \<Rightarrow> char \<Rightarrow> string" where
  "repr_char q c =
     (if c = q \<or> c = CHR 0x5C then [CHR 0x5C, c]
      else if c = CHR 0x09 then [CHR 0x5C, CHR ''t'']
      else if c = CHR 0x0A then [CHR 0x5C, CHR ''n'']
      else if c = CHR 0x0D then [CHR 0x5C, CHR ''r'']
      else if printable c then [c]
      else [CHR 0x5C, CHR ''x''] @ hex2 (ord c))"

definition repr_str :: "string \<Rightarrow> string" where
  "repr_str s =
     (let q = (if CHR 0x27 \<in> set s \<and> CHR 0x22 \<notin> set s then CHR 0x22 else CHR 0x27)
      in [q] @ concat (map (repr_char q) s) @ [q])"

fun py_repr :: "json \<Rightarrow> string"
  and repr_elems :: "json list \<Rightarrow> string"
  and repr_items :: "(string \<times> json) list \<Rightarrow> string" where
  "py_repr JNull = ''None''"
| "py_repr (JBool b) = (if b then ''True'' else ''False'')"
| "py_repr (JInt i) = show_int i"
| "py_repr (JStr s) = repr_str s"
| "py_repr (JList xs) = ''['' @ repr_elems xs @ '']''"
| "py_repr (JObj kvs) = ''{'' @ repr_items kvs @ ''}''"
| "repr_elems [] = []"
| "repr_elems [x] = py_repr x"
| "repr_elems (x # y # ys) = py_repr x @ '', '' @ repr_elems (y # ys)"
| "repr_items [] = []"
| "repr_items [(k, v)] = repr_str k @ '': '' @ py_repr v"
| "repr_items ((k, v) # kv # kvs) = repr_str k @ '': '' @ py_repr v @ '', '' @ repr_items (kv # kvs)"

text \<open>\<open>str(x)\<close>: a string is itself, everything else prints as its \<open>repr\<close>.\<close>

definition py_str :: "json \<Rightarrow> string" where
  "py_str v = (case v of JStr s \<Rightarrow> s | _ \<Rightarrow> py_repr v)"

section \<open>Matcher\<close>

text \<open>
  \<open>[str(x) for x in (logic.get(key) or [])]\<close>: the keywords configured under a key,
  before lowering.
\<close>

definition configured :: "dict \<Rightarrow> string \<Rightarrow> error + string list" where
  "configured logic key =
     bindE (py_iter (get_or logic key (JList []))) (\<lambda>xs. Inr (map py_str xs))"

text \<open>\<open>any(k and k in title_l for k in ks)\<close>.\<close>

definition any_hit :: "string list \<Rightarrow> string \<Rightarrow> bool" where
  "any_hit ks title_l = list_ex (\<lambda>k. k \<noteq> [] \<and> py_in k title_l) ks"

definition match :: "string \<Rightarrow> dict \<Rightarrow> error + bool" where
  "match title cfg =
     bindE (as_dict (get_or cfg ''match_logic'' (JObj []))) (\<lambda>logic.
       let title_l = lower title in
       bindE (configured logic ''negative_keywords'') (\<lambda>negs.
         let negatives = map lower negs in
         if any_hit negatives title_l then Inr False
         else
           bindE (configured logic ''locations'') (\<lambda>locs.
           bindE (configured logic ''topics'') (\<lambda>tops.
             let locations = map lower locs;
                 topics = map lower tops;
                 hit_loc = any_hit locations title_l;
                 hit_topic = any_hit topics title_l
             in if get_flag logic ''require_one_location'' \<and> \<not> hit_loc then Inr False
                else if get_flag logic ''require_one_topic'' \<and> \<not> hit_topic then Inr False
                else Inr True))))"


section \<open>Dictionaries\<close>

text \<open>\<open>d[k] = v\<close>: an existing key keeps its position, a new key goes to the end.\<close>

fun dict_set :: "dict \<Rightarrow> string \<Rightarrow> json \<Rightarrow> dict" where
  "dict_set [] k v = [(k, v)]"
| "dict_set ((k', v') # d) k v =
     (if k' = k then (k, v) # d else (k', v') # dict_set d k v)"

text \<open>\<open>base.update(kwargs)\<close>: the new fields are stored one after the other.\<close>

definition dict_update :: "dict \<Rightarrow> dict \<Rightarrow> dict" where
  "dict_update base kwargs = fold (\<lambda>kv d. dict_set d (fst kv) (snd kv)) kwargs base"

text \<open>
  \<open>int(x)\<close>.  A string is stripped of the white space that \<open>int\<close> knows (not the
  separators 28 to 31, which \<open>str.strip\<close> removes), may carry a sign, and holds decimal
  digits with single underscores between them.
\<close>

definition int_space :: "char \<Rightarrow> bool" where
  "int_space c = (ord c \<in> {9, 10, 11, 12, 13, 32, 133, 160})"

definition isdigit :: "char \<Rightarrow> bool" where
  "isdigit c = (48 \<le> ord c \<and> ord c \<le> 57)"

fun digits_ok :: "string \<Rightarrow> bool" where
  "digits_ok [] = False"
| "digits_ok [c] = isdigit c"
| "digits_ok (c # d # cs) =
     (isdigit c \<and> (if d = CHR ''_'' then digits_ok cs else digits_ok (d # cs)))"

definition digits_value :: "string \<Rightarrow> int" where
  "digits_value s = foldl (\<lambda>acc c. 10 * acc + (int (ord c) - 48)) 0 (filter (\<lambda>c. c \<noteq> CHR ''_'') s)"

definition int_of_str :: "string \<Rightarrow> error + int" where
  "int_of_str s =
     (let t = rev (dropWhile int_space (rev (dropWhile int_space s)));
          neg = (t \<noteq> [] \<and> hd t = CHR ''-'');
          body = (if t \<noteq> [] \<and> (hd t = CHR ''-'' \<or> hd t = CHR ''+'') then tl t else t)
      in if digits_ok body then Inr (if neg then - digits_value body else digits_value body)
         else Inl (ValueError (''invalid literal for int() with base 10: '' @ repr_str s)))"

definition py_int :: "json \<Rightarrow> error + int" where
  "py_int v =
     (case v of
        JInt i \<Rightarrow> Inr i
      | JBool b \<Rightarrow> Inr (if b then 1 else 0)
      | JStr s \<Rightarrow> int_of_str s
      | _ \<Rightarrow> Inl (TypeError
                 (''int() argument must be a string, a bytes-like object or a real number, not '' @
                  [CHR 0x27] @ type_name v @ [CHR 0x27])))"

section \<open>Entries\<close>

record entry =
  source :: string
  title :: string
  link :: string
  uid :: string
  published :: "string option"

section \<open>The process environment\<close>

text \<open>
  A JSON file holds text that \<open>json.loads\<close> either parses to a value or rejects; writing
  \<open>json.dumps(data)\<close> and reading it back gives \<open>data\<close>.
\<close>

datatype jfile = Parsed json | Malformed

text \<open>
  Every operation on the file system and every child process is one attempt, which the
  environment may fail with an exception.  The oracle \<open>fault\<close> says, for each kind of
  operation and each point in time, which exception (if any) the attempt raises.
\<close>

datatype io_op =
    ReadFile string
  | WriteFile string
  | RenameFile string
  | AppendFile string
  | RunProcess string

record world =
  files :: "string \<Rightarrow> jfile option"
  seen_file :: "string option"
  log_file :: "string list"
  spawned :: "string list list"
  alerted :: "string list"
  slept :: "int list"
  net :: "string \<Rightarrow> int \<Rightarrow> int \<Rightarrow> error + string"
  now :: string
  pid :: int
  fault :: "io_op \<Rightarrow> nat \<Rightarrow> error option"
  ticks :: nat

text \<open>
  \<open>files\<close> are the JSON files by name; \<open>seen_file\<close> is the text of the seen log
  (\<open>None\<close> while it does not exist); \<open>log_file\<close> lists the lines written to the log
  (its rotation is not modelled); \<open>spawned\<close> lists the command lines of the child
  processes that were started; \<open>slept\<close> lists the durations of the calls of
  \<open>time.sleep\<close>; \<open>net url timeout n\<close> is what \<open>urlopen\<close> of the URL with
  that timeout and then \<open>read(n)\<close> of the response deliver: the bytes read or the
  exception raised; \<open>now\<close> is the reading of the clock.  \<open>alerted\<close> is a history variable: the uid of every entry
  for which \<open>notify\<close> was called, in order.
\<close>

definition CONFIG_PATH :: string where "CONFIG_PATH = ''power_watchdog_config.json''"
definition SEEN_PATH :: string where "SEEN_PATH = ''seen_news.txt''"
definition STATUS_PATH :: string where "STATUS_PATH = ''status.json''"
definition LOG_PATH :: string where "LOG_PATH = ''power_watchdog.log''"

definition attempt :: "io_op \<Rightarrow> world \<Rightarrow> error option \<times> world" where
  "attempt op w = (fault w op (ticks w), w\<lparr>ticks := Suc (ticks w)\<rparr>)"

definition now_iso :: "world \<Rightarrow> string" where
  "now_iso w = now w"

definition safe_read_json :: "string \<Rightarrow> world \<Rightarrow> dict \<times> world" where
  "safe_read_json path w =
     (case attempt (ReadFile path) w of
        (Some e, w1) \<Rightarrow> ([], w1)
      | (None, w1) \<Rightarrow>
          (case files w path of
             Some (Parsed (JObj kvs)) \<Rightarrow> (kvs, w1)
           | _ \<Rightarrow> ([], w1)))"

definition write_json_atomic :: "string \<Rightarrow> dict \<Rightarrow> world \<Rightarrow> error option \<times> world" where
  "write_json_atomic path data w =
     (let tmp = path @ ''.tmp'' in
      case attempt (WriteFile tmp) w of
        (Some e, w1) \<Rightarrow> (Some e, w1)
      | (None, w1) \<Rightarrow>
          (let w2 = w1\<lparr>files := (files w1)(tmp \<mapsto> Parsed (JObj data))\<rparr> in
           case attempt (RenameFile tmp) w2 of
             (Some e, w3) \<Rightarrow> (Some e, w3)
           | (None, w3) \<Rightarrow>
               (None, w3\<lparr>files := (files w3)(path := files w3 tmp, tmp := None)\<rparr>)))"

definition log :: "string \<Rightarrow> world \<Rightarrow> world" where
  "log msg w =
     (let line = ''['' @ now_iso w @ ''] '' @ msg @ [CHR 0x0A] in
      case attempt (AppendFile LOG_PATH) w of
        (Some e, w1) \<Rightarrow> w1
      | (None, w1) \<Rightarrow> w1\<lparr>log_file := log_file w1 @ [line]\<rparr>)"

definition default_config :: dict where
  "default_config =
     [(''enabled'', JBool True), (''check_interval_seconds'', JInt 300), (''sources'', JList [])]"

definition load_config :: "world \<Rightarrow> dict \<times> world" where
  "load_config w =
     (let (cfg, w1) = (if files w CONFIG_PATH \<noteq> None then safe_read_json CONFIG_PATH w
                       else ([], w))
      in (if cfg = [] then default_config else cfg, w1))"

text \<open>
  \<open>str.splitlines\<close>: a line ends at a line feed, a carriage return (with the line feed
  that follows it, if any), a vertical tab, a form feed, a file, group or record separator
  or a next-line character.
\<close>

definition linebreak :: "char \<Rightarrow> bool" where
  "linebreak c = (ord c \<in> {10, 11, 12, 13, 28, 29, 30, 133})"

function splitlines_from :: "string \<Rightarrow> string \<Rightarrow> string list" where
  "splitlines_from cur [] = (if cur = [] then [] else [rev cur])"
| "splitlines_from cur (c # cs) =
     (if linebreak c
      then rev cur #
           splitlines_from []
             (if c = CHR 0x0D \<and> cs \<noteq> [] \<and> hd cs = CHR 0x0A then tl cs else cs)
      else splitlines_from (c # cur) cs)"
  by pat_completeness auto
termination
  by (relation "measure (\<lambda>(cur, s). length s)") auto

definition splitlines :: "string \<Rightarrow> string list" where
  "splitlines s = splitlines_from [] s"

definition load_seen :: "world \<Rightarrow> string set \<times> world" where
  "load_seen w =
     (case seen_file w of
        None \<Rightarrow> ({}, w)
      | Some txt \<Rightarrow>
          (case attempt (ReadFile SEEN_PATH) w of
             (Some e, w1) \<Rightarrow> ({}, w1)
           | (None, w1) \<Rightarrow> (set (splitlines txt), w1)))"

definition append_seen :: "string \<Rightarrow> world \<Rightarrow> world" where
  "append_seen u w =
     (case attempt (AppendFile SEEN_PATH) w of
        (Some e, w1) \<Rightarrow> w1
      | (None, w1) \<Rightarrow>
          w1\<lparr>seen_file := Some ((case seen_file w1 of None \<Rightarrow> [] | Some txt \<Rightarrow> txt) @ u @ [CHR 0x0A])\<rparr>)"

text \<open>
  \<open>fetch\<close> asks for \<open>max_bytes + 1\<close> bytes of the response and refuses a payload
  longer than \<open>max_bytes\<close>.
\<close>

definition fetch :: "string \<Rightarrow> int \<Rightarrow> int \<Rightarrow> world \<Rightarrow> error + string" where
  "fetch url timeout_s max_bytes w =
     (case net w url timeout_s (max_bytes + 1) of
        Inl e \<Rightarrow> Inl e
      | Inr data \<Rightarrow>
          if int (length data) > max_bytes then Inl (ValueError ''feed_too_large'')
          else Inr data)"

text \<open>On bytes, \<open>lstrip\<close> and \<open>lower\<close> know ASCII only.\<close>

definition bytes_lstrip :: "string \<Rightarrow> string" where
  "bytes_lstrip s = dropWhile (\<lambda>c. ord c \<in> {9, 10, 11, 12, 13, 32}) s"

definition bytes_lower :: "string \<Rightarrow> string" where
  "bytes_lower s = map (\<lambda>c. if 65 \<le> ord c \<and> ord c \<le> 90 then char_of (ord c + 32) else c) s"

definition looks_like_html :: "string \<Rightarrow> bool" where
  "looks_like_html data =
     (let head = bytes_lower (bytes_lstrip (take 600 data))
      in startswith head ''<!doctype html'' \<or> startswith head ''<html'' \<or> py_in ''<html'' head)"

text \<open>
  \<open>notify\<close>: the notification and the sound are child processes; a process that cannot be
  started is ignored.
\<close>

definition unquote :: "string \<Rightarrow> string" where
  "unquote s = map (\<lambda>c. if c = CHR 0x22 then CHR 0x27 else c) s"

definition run_quietly :: "string list \<Rightarrow> world \<Rightarrow> world" where
  "run_quietly argv w =
     (case attempt (RunProcess (hd argv)) w of
        (Some e, w1) \<Rightarrow> w1
      | (None, w1) \<Rightarrow> w1\<lparr>spawned := spawned w1 @ [argv]\<rparr>)"

definition notify :: "string \<Rightarrow> string \<Rightarrow> string option \<Rightarrow> world \<Rightarrow> world" where
  "notify ttl body sound w =
     (let safe_body = unquote body;
          safe_title = unquote ttl;
          script = ''display notification '' @ [CHR 0x22] @ safe_body @ [CHR 0x22] @
                   '' with title '' @ [CHR 0x22] @ safe_title @ [CHR 0x22];
          w1 = run_quietly [''osascript'', ''-e'', script] w
      in case sound of
           None \<Rightarrow> w1
         | Some snd_file \<Rightarrow> if snd_file \<noteq> [] then run_quietly [''afplay'', snd_file] w1 else w1)"

definition update_status :: "dict \<Rightarrow> world \<Rightarrow> error option \<times> world" where
  "update_status kwargs w =
     (let (base, w1) = (if files w STATUS_PATH \<noteq> None then safe_read_json STATUS_PATH w
                        else ([], w))
      in write_json_atomic STATUS_PATH (dict_update base kwargs) w1)"


section \<open>Feed documents\<close>

text \<open>
  An element of \<open>xml.etree.ElementTree\<close>: its tag (\<open>{uri}name\<close> when it is in a
  namespace), its attributes, the text before its first child, and its children.
\<close>

datatype element =
  Element (tag: string) (attrib: "(string \<times> string) list") (etext: "string option")
    (children: "element list")

text \<open>
  What the standard library does and the watchdog only calls: the UTF-8 codec, the table of
  HTML entities, the XML parser (\<open>None\<close> when it raises), \<open>html.unescape\<close>,
  \<open>urljoin\<close>, and the regular-expression searches for anchors, for \<open>item\<close> blocks and
  for the first element of a given name in a block.
\<close>

record lib =
  utf8_decode :: "string \<Rightarrow> string"
  name2codepoint :: "string \<Rightarrow> nat option"
  et_fromstring :: "string \<Rightarrow> element option"
  html_unescape :: "string \<Rightarrow> string"
  urljoin :: "string \<Rightarrow> string \<Rightarrow> string"
  re_anchors :: "string \<Rightarrow> (string \<times> string) list"
  re_items :: "string \<Rightarrow> string list"
  re_element :: "string \<Rightarrow> string \<Rightarrow> string option"

text \<open>A tag pattern of \<open>find\<close>: \<open>{*}name\<close> is the name in any or no namespace.\<close>

definition endswith :: "string \<Rightarrow> string \<Rightarrow> bool" where
  "endswith s p = startswith (rev s) (rev p)"

definition tag_matches :: "string \<Rightarrow> string \<Rightarrow> bool" where
  "tag_matches pat t =
     (if take 3 pat = ''{*}'' then t = drop 3 pat \<or> endswith t (drop 2 pat) else t = pat)"

definition find :: "element \<Rightarrow> string \<Rightarrow> element option" where
  "find parent pat = List.find (\<lambda>e. tag_matches pat (tag e)) (children parent)"

definition findall :: "element \<Rightarrow> string \<Rightarrow> element list" where
  "findall parent pat = filter (\<lambda>e. tag_matches pat (tag e)) (children parent)"

fun iter :: "element \<Rightarrow> element list" where
  "iter (Element t a x cs) = Element t a x cs # concat (map iter cs)"

text \<open>\<open>root.findall(".//pat")\<close>: the proper descendants, in document order.\<close>

definition findall_descendants :: "element \<Rightarrow> string \<Rightarrow> element list" where
  "findall_descendants root pat =
     filter (\<lambda>e. tag_matches pat (tag e)) (concat (map iter (children root)))"

definition text_of :: "element option \<Rightarrow> string" where
  "text_of node =
     (case node of
        None \<Rightarrow> []
      | Some el \<Rightarrow> (case etext el of None \<Rightarrow> [] | Some x \<Rightarrow> strip x))"

fun find_first_text :: "element \<Rightarrow> string list \<Rightarrow> string" where
  "find_first_text parent [] = []"
| "find_first_text parent (t # ts) =
     (case find parent t of
        None \<Rightarrow> find_first_text parent ts
      | Some el \<Rightarrow> (let v = text_of (Some el) in if v \<noteq> [] then v else find_first_text parent ts))"

text \<open>\<open>a or b\<close> on strings, and on elements: an element without children is falsy.\<close>

definition or_str :: "string \<Rightarrow> string \<Rightarrow> string" where
  "or_str a b = (if a \<noteq> [] then a else b)"

definition or_element :: "element option \<Rightarrow> element option \<Rightarrow> element option" where
  "or_element a b = (case a of None \<Rightarrow> b | Some el \<Rightarrow> if children el \<noteq> [] then a else b)"

definition attrib_get :: "element \<Rightarrow> string \<Rightarrow> string" where
  "attrib_get el k = (case map_of (attrib el) k of None \<Rightarrow> [] | Some v \<Rightarrow> v)"

definition extract_link_rss :: "element \<Rightarrow> string" where
  "extract_link_rss item =
     (let lnk = or_str (text_of (find item ''link'')) (text_of (find item ''{*}link'')) in
      if lnk \<noteq> [] then lnk
      else (case or_element (find item ''link'') (find item ''{*}link'') of
              None \<Rightarrow> []
            | Some link_el \<Rightarrow> attrib_get link_el ''href''))"

definition extract_link_atom :: "element \<Rightarrow> string" where
  "extract_link_atom en =
     (let links = findall en ''{*}link'' in
      case List.find (\<lambda>l. attrib_get l ''href'' \<noteq> [] \<and>
                          lower (attrib_get l ''rel'') \<in> {[], ''alternate''}) links of
        Some l \<Rightarrow> attrib_get l ''href''
      | None \<Rightarrow>
          (case List.find (\<lambda>l. attrib_get l ''href'' \<noteq> []) links of
             Some l \<Rightarrow> attrib_get l ''href''
           | None \<Rightarrow> []))"

definition none_if_empty :: "string \<Rightarrow> string option" where
  "none_if_empty s = (if s = [] then None else Some s)"

definition rss_entry :: "string \<Rightarrow> element \<Rightarrow> entry" where
  "rss_entry src it =
     (let ttl = or_str (find_first_text it [''title'', ''{*}title'']) ''(no title)'';
          lnk = extract_link_rss it;
          u = or_str (find_first_text it [''guid'', ''{*}guid'', ''{*}id'']) (or_str lnk ttl);
          pub = find_first_text it [''pubDate'', ''{*}pubDate'', ''{*}published'', ''{*}updated'']
      in \<lparr>source = src, title = ttl, link = lnk, uid = u, published = none_if_empty pub\<rparr>)"

definition atom_entry :: "string \<Rightarrow> element \<Rightarrow> entry" where
  "atom_entry src en =
     (let ttl = or_str (find_first_text en [''{*}title'']) ''(no title)'';
          lnk = extract_link_atom en;
          u = or_str (find_first_text en [''{*}id'']) (or_str lnk ttl);
          pub = find_first_text en [''{*}updated'', ''{*}published'']
      in \<lparr>source = src, title = ttl, link = lnk, uid = u, published = none_if_empty pub\<rparr>)"

text \<open>The part of \<open>parse_feed\<close> after a successful strict parse.\<close>

definition entries_of_root :: "element \<Rightarrow> string \<Rightarrow> entry list" where
  "entries_of_root root src =
     (let items = findall_descendants root ''item'';
          items = (if items = [] then findall_descendants root ''{*}item'' else items)
      in if items \<noteq> [] then map (rss_entry src) items
         else map (atom_entry src) (findall_descendants root ''{*}entry''))"

subsection \<open>Sanitising the text\<close>

definition isalpha :: "char \<Rightarrow> bool" where
  "isalpha c = ((65 \<le> ord c \<and> ord c \<le> 90) \<or> (97 \<le> ord c \<and> ord c \<le> 122))"

definition isalnum :: "char \<Rightarrow> bool" where
  "isalnum c = (isalpha c \<or> isdigit c)"

definition ishex :: "char \<Rightarrow> bool" where
  "ishex c = (isdigit c \<or> (65 \<le> ord c \<and> ord c \<le> 70) \<or> (97 \<le> ord c \<and> ord c \<le> 102))"

text \<open>
  A name \<open>[A-Za-z][A-Za-z0-9]+\<close> followed by a semicolon at the head of the text: the
  name and the text after the semicolon.
\<close>

definition entity_name :: "string \<Rightarrow> (string \<times> string) option" where
  "entity_name cs =
     (let name = takeWhile isalnum cs; rest = dropWhile isalnum cs
      in if 2 \<le> length name \<and> isalpha (hd name) \<and> rest \<noteq> [] \<and> hd rest = CHR '';''
         then Some (name, tl rest) else None)"

definition fix_named_entity :: "lib \<Rightarrow> string \<Rightarrow> string" where
  "fix_named_entity L name =
     (if name \<in> {''amp'', ''lt'', ''gt'', ''apos'', ''quot''} then ''&'' @ name @ '';''
      else (case name2codepoint L name of
              None \<Rightarrow> ''&amp;'' @ name @ '';''
            | Some cp \<Rightarrow> if cp \<noteq> 0 then ''&#'' @ show_nat cp @ '';''
                         else ''&amp;'' @ name @ '';''))"

function fix_named_entities :: "lib \<Rightarrow> string \<Rightarrow> string" where
  "fix_named_entities L [] = []"
| "fix_named_entities L (c # cs) =
     (if c = CHR ''&'' then
        (case entity_name cs of
           Some (name, rest) \<Rightarrow> fix_named_entity L name @ fix_named_entities L rest
         | None \<Rightarrow> c # fix_named_entities L cs)
      else c # fix_named_entities L cs)"
  by pat_completeness auto
termination
proof (relation "measure (\<lambda>(L, s). length s)")
  show "wf (measure (\<lambda>(L, s). length s))" by simp
next
  fix L :: lib and c :: char and cs x2 x y
  assume "entity_name cs = Some x2" and "(x, y) = x2"
  then have "y = tl (dropWhile isalnum cs)"
    by (auto simp: entity_name_def Let_def split: if_splits)
  moreover have "length (tl (dropWhile isalnum cs)) \<le> length cs"
    by (metis diff_le_self dual_order.trans length_dropWhile_le length_tl)
  ultimately show "((L, y), L, c # cs) \<in> measure (\<lambda>(L, s). length s)" by simp
qed auto

text \<open>
  What may follow an ampersand that is left alone: \<open>#\<close> digits \<open>;\<close>, \<open>#x\<close>
  hexadecimal digits \<open>;\<close>, or a name and \<open>;\<close>.
\<close>

definition is_reference :: "string \<Rightarrow> bool" where
  "is_reference cs =
     ((cs \<noteq> [] \<and> hd cs = CHR ''#'' \<and>
         (let ds = takeWhile isdigit (tl cs); rest = dropWhile isdigit (tl cs)
          in ds \<noteq> [] \<and> rest \<noteq> [] \<and> hd rest = CHR '';''))
      \<or> (startswith cs ''#x'' \<and>
         (let hs = takeWhile ishex (drop 2 cs); rest = dropWhile ishex (drop 2 cs)
          in hs \<noteq> [] \<and> rest \<noteq> [] \<and> hd rest = CHR '';''))
      \<or> entity_name cs \<noteq> None)"

fun escape_ampersands :: "string \<Rightarrow> string" where
  "escape_ampersands [] = []"
| "escape_ampersands (c # cs) =
     (if c = CHR ''&'' \<and> \<not> is_reference cs then ''&amp;'' @ escape_ampersands cs
      else c # escape_ampersands cs)"

definition sanitize :: "lib \<Rightarrow> string \<Rightarrow> string" where
  "sanitize L data =
     (let txt = utf8_decode L data;
          txt = filter (\<lambda>ch. ch \<in> {CHR 0x09, CHR 0x0A, CHR 0x0D} \<or> 32 \<le> ord ch) txt;
          txt = fix_named_entities L txt
      in escape_ampersands txt)"

subsection \<open>The fallback on \<open>item\<close> blocks\<close>

text \<open>
  \<open>re.sub(r"^<!\[CDATA\[(.*)\]\]>$", r"\1", s, flags=re.S)\<close>: the end of the pattern
  also matches before a final line feed, which then stays.
\<close>

definition strip_cdata :: "string \<Rightarrow> string" where
  "strip_cdata s =
     (if startswith s ''<![CDATA['' \<and> 12 \<le> length s \<and> endswith s '']]>''
      then take (length s - 12) (drop 9 s)
      else if startswith s ''<![CDATA['' \<and> 13 \<le> length s \<and> endswith s ('']]>'' @ [CHR 0x0A])
      then take (length s - 13) (drop 9 s) @ [CHR 0x0A]
      else s)"

definition group_or_empty :: "string option \<Rightarrow> string" where
  "group_or_empty m = (case m of None \<Rightarrow> [] | Some g \<Rightarrow> g)"

definition regex_entry :: "lib \<Rightarrow> string \<Rightarrow> string \<Rightarrow> entry" where
  "regex_entry L src raw =
     (let ttl = html_unescape L (strip (group_or_empty (re_element L ''title'' raw)));
          lnk = html_unescape L (strip (group_or_empty (re_element L ''link'' raw)));
          u = or_str (html_unescape L (strip (group_or_empty (re_element L ''guid'' raw))))
                (or_str lnk ttl);
          pub = none_if_empty
                  (html_unescape L (strip (group_or_empty (re_element L ''pubDate'' raw))));
          ttl = or_str (strip (strip_cdata ttl)) ''(no title)'';
          lnk = strip (strip_cdata lnk)
      in \<lparr>source = src, title = ttl, link = lnk, uid = u, published = pub\<rparr>)"

definition parse_feed :: "lib \<Rightarrow> string \<Rightarrow> string \<Rightarrow> entry list" where
  "parse_feed L data src =
     (let txt = sanitize L data in
      case et_fromstring L txt of
        None \<Rightarrow> filter (\<lambda>e. title e \<noteq> []) (map (regex_entry L src) (take 200 (re_items L txt)))
      | Some root \<Rightarrow> entries_of_root root src)"

subsection \<open>Links of an HTML page\<close>

text \<open>\<open>re.sub(r"(?is)<[^>]+>", " ", label)\<close>: every tag becomes a blank.\<close>

function strip_tags :: "string \<Rightarrow> string" where
  "strip_tags [] = []"
| "strip_tags (c # cs) =
     (let inner = takeWhile (\<lambda>x. x \<noteq> CHR ''>'') cs; rest = dropWhile (\<lambda>x. x \<noteq> CHR ''>'') cs
      in if c = CHR ''<'' \<and> inner \<noteq> [] \<and> rest \<noteq> [] then CHR '' '' # strip_tags (tl rest)
         else c # strip_tags cs)"
  by pat_completeness auto
termination
proof (relation "measure length")
  show "wf (measure length)" by simp
next
  fix c :: char and cs x xa :: string
  assume "x = takeWhile (\<lambda>x. x \<noteq> CHR ''>'') cs" and "xa = dropWhile (\<lambda>x. x \<noteq> CHR ''>'') cs"
  moreover have "length (tl (dropWhile (\<lambda>x. x \<noteq> CHR ''>'') cs)) \<le> length cs"
    by (metis diff_le_self dual_order.trans length_dropWhile_le length_tl)
  ultimately show "(tl xa, c # cs) \<in> measure length" by simp
qed auto

text \<open>\<open>" ".join(s.split())\<close>: runs of white space become one blank, the ends are trimmed.\<close>

function words :: "string \<Rightarrow> string list" where
  "words s =
     (let t = dropWhile isspace s in
      if t = [] then [] else takeWhile (\<lambda>c. \<not> isspace c) t # words (dropWhile (\<lambda>c. \<not> isspace c) t))"
  by pat_completeness auto
termination
proof (relation "measure length")
  show "wf (measure length)" by simp
next
  fix s x :: string
  assume x: "x = dropWhile isspace s" and ne: "x \<noteq> []"
  then have "\<not> isspace (hd x)"
    by (metis hd_dropWhile)
  with ne have "length (dropWhile (\<lambda>c. \<not> isspace c) x) < length x"
    by (cases x) (auto simp: le_imp_less_Suc length_dropWhile_le)
  also have "length x \<le> length s" using x by (simp add: length_dropWhile_le)
  finally show "(dropWhile (\<lambda>c. \<not> isspace c) x, s) \<in> measure length" by simp
qed

fun join_blank :: "string list \<Rightarrow> string" where
  "join_blank [] = []"
| "join_blank [x] = x"
| "join_blank (x # y # ys) = x @ '' '' @ join_blank (y # ys)"

fun html_links_loop :: "lib \<Rightarrow> string \<Rightarrow> string \<Rightarrow> (string \<times> string) list \<Rightarrow> entry list \<Rightarrow> entry list" where
  "html_links_loop L src base_url [] out = out"
| "html_links_loop L src base_url ((href, label) # anchors) out =
     (let href = strip href in
      if href = [] \<or> startswith href ''#'' then html_links_loop L src base_url anchors out
      else if \<not> (startswith href ''http://'' \<or> startswith href ''https://'' \<or> startswith href ''/'')
      then html_links_loop L src base_url anchors out
      else
        (let href = (if startswith href ''/'' then urljoin L base_url href else href) in
         if py_in ''berlin.de'' base_url \<and> \<not> py_in ''pressemitteilung.'' href
         then html_links_loop L src base_url anchors out
         else
           (let ttl = html_unescape L (join_blank (words (strip_tags label))) in
            if ttl = [] \<or> length ttl < 12 then html_links_loop L src base_url anchors out
            else
              (let out = out @ [\<lparr>source = src, title = ttl, link = href, uid = href,
                                  published = None\<rparr>]
               in if 80 \<le> length out then out
                  else html_links_loop L src base_url anchors out))))"

definition parse_html_links :: "lib \<Rightarrow> string \<Rightarrow> string \<Rightarrow> string \<Rightarrow> entry list" where
  "parse_html_links L data src base_url =
     html_links_loop L src base_url (take 4000 (re_anchors L (utf8_decode L data))) []"


section \<open>One polling cycle\<close>

text \<open>
  The local variables of \<open>run_once\<close> that change while the sources are processed,
  together with the environment and the set \<open>seen\<close> that the caller passes in.
\<close>

record run =
  env :: world
  seen :: "string set"
  hits :: int
  checked :: int
  last_error :: "string option"
  latest_items :: dict

text \<open>The settings that \<open>run_once\<close> reads from the configuration before its loop.\<close>

record settings =
  timeout_s :: int
  max_bytes :: int
  notif_title :: string
  sound :: "string option"
  show_link :: bool

text \<open>\<open>append_seen(e.uid); seen.add(e.uid)\<close>.\<close>

definition mark_seen :: "string \<Rightarrow> run \<Rightarrow> run" where
  "mark_seen u r = r\<lparr>env := append_seen u (env r), seen := insert u (seen r)\<rparr>"

definition prime_seen :: "entry list \<Rightarrow> run \<Rightarrow> run" where
  "prime_seen entries r =
     fold (\<lambda>e r. if uid e \<notin> seen r then mark_seen (uid e) r else r) (take 50 entries) r"

definition as_public_item :: "entry \<Rightarrow> json" where
  "as_public_item e =
     JObj [(''title'', JStr (title e)), (''link'', JStr (link e)),
           (''published'', (case published e of None \<Rightarrow> JNull | Some p \<Rightarrow> JStr p)),
           (''uid'', JStr (uid e))]"

text \<open>
  The body of the loop over the entries of one source.  The result \<open>Some exc\<close> is an
  exception that leaves the loop; the state is the one reached when it was raised.
\<close>

definition process_entry :: "dict \<Rightarrow> settings \<Rightarrow> string \<Rightarrow> entry \<Rightarrow> run \<Rightarrow> error option \<times> run" where
  "process_entry cfg st name e r =
     (if uid e \<in> seen r then (None, r)
      else
        (case match (title e) cfg of
           Inl exc \<Rightarrow> (Some exc, r)
         | Inr False \<Rightarrow> (None, mark_seen (uid e) r)
         | Inr True \<Rightarrow>
             (let r1 = r\<lparr>hits := hits r + 1\<rparr>;
                  body = (if show_link st \<and> link e \<noteq> [] then title e @ [CHR 0x0A] @ link e
                          else title e);
                  w1 = log (''HIT ('' @ name @ ''): '' @ title e) (env r1);
                  w2 = notify (notif_title st) body (sound st) w1;
                  w2 = w2\<lparr>alerted := alerted w2 @ [uid e]\<rparr>
              in case update_status
                        [(''last_hit_at'', JStr (now_iso w2)),
                         (''last_hit_title'', JStr (title e)),
                         (''last_hit_link'', JStr (link e)),
                         (''last_hit_source'', JStr name)] w2 of
                   (Some exc, w3) \<Rightarrow> (Some exc, r1\<lparr>env := w3\<rparr>)
                 | (None, w3) \<Rightarrow> (None, mark_seen (uid e) (r1\<lparr>env := w3\<rparr>)))))"

fun process_entries :: "dict \<Rightarrow> settings \<Rightarrow> string \<Rightarrow> entry list \<Rightarrow> run \<Rightarrow> error option \<times> run" where
  "process_entries cfg st name [] r = (None, r)"
| "process_entries cfg st name (e # es) r =
     (case process_entry cfg st name e r of
        (Some exc, r') \<Rightarrow> (Some exc, r')
      | (None, r') \<Rightarrow> process_entries cfg st name es r')"

text \<open>The \<open>try\<close> block of one source.\<close>

definition try_source :: "lib \<Rightarrow> dict \<Rightarrow> settings \<Rightarrow> string \<Rightarrow> string \<Rightarrow> run \<Rightarrow> error option \<times> run" where
  "try_source L cfg st name url r =
     (case fetch url (timeout_s st) (max_bytes st) (env r) of
        Inl exc \<Rightarrow> (Some exc, r)
      | Inr data \<Rightarrow>
          (let entries = (if looks_like_html data then parse_html_links L data name url
                          else parse_feed L data name);
               r1 = r\<lparr>latest_items :=
                         dict_set (latest_items r) name (JList (map as_public_item (take 10 entries)))\<rparr>
           in if seen r1 = {} \<and> get_flag cfg ''prime_on_first_run''
              then (let r2 = prime_seen entries r1
                    in (None, r2\<lparr>env := log (''[prime] '' @ name @ '': primed '' @
                                              show_int (min (int (length entries)) 50) @
                                              '' items as seen'') (env r2)\<rparr>))
              else process_entries cfg st name (take 80 entries) r1))"

text \<open>
  The body of the loop over the sources.  Reading the name and the URL happens before the
  \<open>try\<close>, so an exception there leaves \<open>run_once\<close>; an exception inside the \<open>try\<close>
  is recorded and the loop goes on.
\<close>

definition process_source :: "lib \<Rightarrow> dict \<Rightarrow> settings \<Rightarrow> json \<Rightarrow> run \<Rightarrow> error option \<times> run" where
  "process_source L cfg st src r =
     (case as_dict (if truthy src then src else JObj []) of
        Inl exc \<Rightarrow> (Some exc, r)
      | Inr d \<Rightarrow>
          (let name = py_str (get_or d ''name'' (JStr ''source''));
               url = py_str (get_or d ''url'' (JStr []))
           in if url = [] then (None, r)
              else
                (case try_source L cfg st name url (r\<lparr>checked := checked r + 1\<rparr>) of
                   (None, r') \<Rightarrow> (None, r')
                 | (Some exc, r') \<Rightarrow>
                     (let msg = name @ '': '' @ exc_str exc
                      in (None, r'\<lparr>last_error := Some msg,
                                    env := log (''warn: '' @ msg) (env r')\<rparr>)))))"

fun run_sources :: "lib \<Rightarrow> dict \<Rightarrow> settings \<Rightarrow> json list \<Rightarrow> run \<Rightarrow> error option \<times> run" where
  "run_sources L cfg st [] r = (None, r)"
| "run_sources L cfg st (src # srcs) r =
     (case process_source L cfg st src r of
        (Some exc, r') \<Rightarrow> (Some exc, r')
      | (None, r') \<Rightarrow> run_sources L cfg st srcs r')"

text \<open>
  The default title of a notification starts with the character U+26A1, written here by
  the three bytes of its UTF-8 encoding.
\<close>

definition default_notif_title :: string where
  "default_notif_title = [CHR 0xE2, CHR 0x9A, CHR 0xA1] @ '' POWER UPDATE''"

definition read_settings :: "dict \<Rightarrow> error + settings" where
  "read_settings cfg =
     bindE (py_int (get_or cfg ''request_timeout_seconds'' (JInt 10))) (\<lambda>t.
     bindE (py_int (get_or cfg ''max_feed_bytes'' (JInt 2000000))) (\<lambda>m.
     bindE (as_dict (get_or cfg ''notification'' (JObj []))) (\<lambda>notif.
       Inr \<lparr>timeout_s = t, max_bytes = m,
            notif_title = py_str (get_or notif ''title'' (JStr default_notif_title)),
            sound = none_if_empty (py_str (get_or notif ''sound'' (JStr []))),
            show_link = get_flag notif ''show_link_in_body''\<rparr>)))"

definition final_status :: "run \<Rightarrow> dict" where
  "final_status r =
     [(''ok'', JBool True),
      (''updated_at'', JStr (now_iso (env r))),
      (''checked_sources'', JInt (checked r)),
      (''hits'', JInt (hits r)),
      (''last_error'', (case last_error r of None \<Rightarrow> JNull | Some m \<Rightarrow> JStr m)),
      (''latest_items'', JObj (latest_items r))]"

text \<open>
  \<open>run_once\<close>.  The result \<open>Some exc\<close> is an exception that leaves the function; the
  pair that the source returns is \<open>(checked r, hits r)\<close> of the final state \<open>r\<close>.
\<close>

definition run_once :: "lib \<Rightarrow> dict \<Rightarrow> string set \<Rightarrow> world \<Rightarrow> error option \<times> run" where
  "run_once L cfg seen0 w0 =
     (let r0 = \<lparr>env = w0, seen = seen0, hits = 0, checked = 0, last_error = None,
                latest_items = []\<rparr>
      in case read_settings cfg of
           Inl exc \<Rightarrow> (Some exc, r0)
         | Inr st \<Rightarrow>
             (case py_iter (get_or cfg ''sources'' (JList [])) of
                Inl exc \<Rightarrow> (Some exc, r0)
              | Inr sources \<Rightarrow>
                  (case run_sources L cfg st sources r0 of
                     (Some exc, r) \<Rightarrow> (Some exc, r)
                   | (None, r) \<Rightarrow>
                       (case update_status (final_status r) (env r) of
                          (res, w') \<Rightarrow> (res, r\<lparr>env := w'\<rparr>)))))"

section \<open>The poll loop\<close>

definition sleep :: "int \<Rightarrow> world \<Rightarrow> world" where
  "sleep n w = w\<lparr>slept := slept w @ [n]\<rparr>"

text \<open>\<open>seen = load_seen()\<close> followed by \<open>run_once(cfg, seen)\<close>.\<close>

definition cycle :: "lib \<Rightarrow> dict \<Rightarrow> world \<Rightarrow> error option \<times> run" where
  "cycle L cfg w = (case load_seen w of (sn, w1) \<Rightarrow> run_once L cfg sn w1)"

text \<open>
  One pass through the body of \<open>while True\<close>.  The result \<open>Some exc\<close> is an exception
  that no handler of \<open>main\<close> catches.
\<close>

definition main_iteration :: "lib \<Rightarrow> world \<Rightarrow> error option \<times> world" where
  "main_iteration L w =
     (case load_config w of
        (cfg, w1) \<Rightarrow>
          if \<not> get_flag cfg ''enabled'' then
            (case update_status [(''ok'', JBool True), (''updated_at'', JStr (now_iso w1)),
                                 (''note'', JStr ''disabled_in_config'')] w1 of
               (Some exc, w2) \<Rightarrow> (Some exc, w2)
             | (None, w2) \<Rightarrow> (None, sleep 60 w2))
          else
            (case py_int (get_or cfg ''check_interval_seconds'' (JInt 300)) of
               Inl exc \<Rightarrow> (Some exc, w1)
             | Inr i \<Rightarrow>
                 (let interval = max 30 (min i 3600) in
                  case cycle L cfg w1 of
                    (None, r) \<Rightarrow> (None, sleep interval (env r))
                  | (Some exc, r) \<Rightarrow>
                      (let w3 = log (''error: run_once_failed: '' @ exc_str exc) (env r) in
                       case update_status
                              [(''ok'', JBool False), (''updated_at'', JStr (now_iso w3)),
                               (''last_error'', JStr (exc_str exc))] w3 of
                         (Some exc', w4) \<Rightarrow> (Some exc', w4)
                       | (None, w4) \<Rightarrow> (None, sleep interval w4)))))"

text \<open>
  The loop itself never returns; it ends only when an exception escapes.  The value
  \<open>None\<close> of \<open>main_loop\<close> is a loop that runs forever, \<open>Some (exc, w)\<close> is the
  exception that ended the process and the environment it left behind.  Between two
  passes the environment is changed by nobody else; signals are not modelled.
\<close>

partial_function (option) main_loop :: "lib \<Rightarrow> world \<Rightarrow> (error \<times> world) option" where
  "main_loop L w =
     (case main_iteration L w of
        (Some exc, w') \<Rightarrow> Some (exc, w')
      | (None, w') \<Rightarrow> main_loop L w')"

definition main :: "lib \<Rightarrow> world \<Rightarrow> (error \<times> world) option" where
  "main L w =
     (let w1 = log ''service starting'' w in
      case update_status [(''ok'', JBool True), (''started_at'', JStr (now_iso w1)),
                          (''pid'', JInt (pid w1))] w1 of
        (Some exc, w2) \<Rightarrow> Some (exc, w2)
      | (None, w2) \<Rightarrow> main_loop L w2)"


section \<open>Notions used in the statements\<close>

text \<open>A keyword is a case-insensitive substring of a title.\<close>

definition ci_substring :: "string \<Rightarrow> string \<Rightarrow> bool" where
  "ci_substring k ttl = py_in (lower k) (lower ttl)"

text \<open>The dictionary that \<open>update_status\<close> starts from.\<close>

definition previous_status :: "world \<Rightarrow> dict" where
  "previous_status w =
     (case files w STATUS_PATH of Some (Parsed (JObj kvs)) \<Rightarrow> kvs | _ \<Rightarrow> [])"

text \<open>A file that holds a JSON object.\<close>

definition holds_object :: "jfile option \<Rightarrow> bool" where
  "holds_object f = (case f of Some (Parsed (JObj kvs)) \<Rightarrow> True | _ \<Rightarrow> False)"

text \<open>The environment never fails an operation.\<close>

definition reliable :: "world \<Rightarrow> bool" where
  "reliable w = (\<forall>op n. fault w op n = None)"

text \<open>
  Two environments with the same surroundings: network, clock, process id and oracle.
\<close>

definition same_setting :: "world \<Rightarrow> world \<Rightarrow> bool" where
  "same_setting w w' = (net w' = net w \<and> now w' = now w \<and> pid w' = pid w \<and> fault w' = fault w)"

text \<open>The seen log is absent, empty, or ends with a line feed.\<close>

definition seen_log_closed :: "world \<Rightarrow> bool" where
  "seen_log_closed w =
     (case seen_file w of None \<Rightarrow> True | Some txt \<Rightarrow> txt = [] \<or> last txt = CHR 0x0A)"

text \<open>The uids that the seen log holds: what \<open>load_seen\<close> reads when the read succeeds.\<close>

definition seen_lines :: "world \<Rightarrow> string set" where
  "seen_lines w = (case seen_file w of None \<Rightarrow> {} | Some txt \<Rightarrow> set (splitlines txt))"

text \<open>A uid without a character at which \<open>splitlines\<close> would cut it.\<close>

definition single_line :: "string \<Rightarrow> bool" where
  "single_line u = list_all (\<lambda>c. \<not> linebreak c) u"

text \<open>
  The invariant of a cycle for one uid \<open>u\<close>, when \<open>notify\<close> had been called \<open>n\<close>
  times for it before: it has been called at most once more, and if so, \<open>u\<close> is in the
  set of seen uids and in the seen log.
\<close>

definition deduped :: "string \<Rightarrow> nat \<Rightarrow> run \<Rightarrow> bool" where
  "deduped u n r =
     (reliable (env r) \<and> seen_log_closed (env r) \<and>
      (count_list (alerted (env r)) u = n \<or>
       (count_list (alerted (env r)) u = Suc n \<and> u \<in> seen r \<and> u \<in> seen_lines (env r))))"






text \<open>A configured source that has a URL, and one whose fetch succeeds.\<close>

definition has_url :: "json \<Rightarrow> bool" where
  "has_url src =
     (case as_dict (if truthy src then src else JObj []) of
        Inl exc \<Rightarrow> False
      | Inr d \<Rightarrow> py_str (get_or d ''url'' (JStr [])) \<noteq> [])"

definition fetch_ok :: "world \<Rightarrow> settings \<Rightarrow> json \<Rightarrow> bool" where
  "fetch_ok w st src =
     (case as_dict (if truthy src then src else JObj []) of
        Inl exc \<Rightarrow> False
      | Inr d \<Rightarrow>
          py_str (get_or d ''url'' (JStr [])) = [] \<or>
          (case fetch (py_str (get_or d ''url'' (JStr []))) (timeout_s st) (max_bytes st) w of
             Inl exc \<Rightarrow> False
           | Inr data \<Rightarrow> True))"

section \<open>Sample inputs\<close>

definition feed_a :: string where
  "feed_a = ''<rss><channel><item><title>Wetterbericht</title><guid>a1</guid></item></channel></rss>''"

definition feed_b :: string where
  "feed_b = ''<rss><channel><item><title>Stromausfall Berlin Mitte</title><guid>b1</guid></item><item><title>Stromausfall Berlin Nord</title><guid>b2</guid></item></channel></rss>''"

definition tree_a :: element where
  "tree_a =
     Element ''rss'' [] None
       [Element ''channel'' [] None
          [Element ''item'' [] None
             [Element ''title'' [] (Some ''Wetterbericht'') [],
              Element ''guid'' [] (Some ''a1'') []]]]"

definition tree_b :: element where
  "tree_b =
     Element ''rss'' [] None
       [Element ''channel'' [] None
          [Element ''item'' [] None
             [Element ''title'' [] (Some ''Stromausfall Berlin Mitte'') [],
              Element ''guid'' [] (Some ''b1'') []],
           Element ''item'' [] None
             [Element ''title'' [] (Some ''Stromausfall Berlin Nord'') [],
              Element ''guid'' [] (Some ''b2'') []]]]"

text \<open>
  The library on the two sample documents, which are plain ASCII without entity
  references: decoding is the identity and the parser returns the trees above.
\<close>

definition sample_lib :: lib where
  "sample_lib =
     \<lparr>utf8_decode = (\<lambda>s. s),
      name2codepoint = (\<lambda>n. None),
      et_fromstring = (\<lambda>t. if t = feed_a then Some tree_a
                             else if t = feed_b then Some tree_b else None),
      html_unescape = (\<lambda>s. s),
      urljoin = (\<lambda>b h. b @ h),
      re_anchors = (\<lambda>t. []),
      re_items = (\<lambda>t. []),
      re_element = (\<lambda>n t. None)\<rparr>"

definition url_a :: string where "url_a = ''https://a.example/feed''"
definition url_b :: string where "url_b = ''https://b.example/feed''"

text \<open>A network that serves the two documents; a read of \<open>n\<close> bytes gives at most \<open>n\<close>.\<close>

definition sample_net :: "string \<Rightarrow> int \<Rightarrow> int \<Rightarrow> error + string" where
  "sample_net url t n =
     (if url = url_a then Inr (take (nat n) feed_a)
      else if url = url_b then Inr (take (nat n) feed_b)
      else Inl (OSError ''unreachable''))"

text \<open>A first start: no seen log, no status file, nothing fails.\<close>

definition sample_world :: world where
  "sample_world =
     \<lparr>files = (\<lambda>p. None), seen_file = None, log_file = [], spawned = [], alerted = [],
      slept = [], net = sample_net, now = ''2026-01-01T00:00:00'', pid = 4242,
      fault = (\<lambda>op n. None), ticks = 0\<rparr>"

definition sample_logic :: dict where
  "sample_logic =
     [(''locations'', JList [JStr ''Berlin'']),
      (''topics'', JList [JStr ''Stromausfall'']),
      (''negative_keywords'', JList [JStr []])]"

definition source_a :: json where
  "source_a = JObj [(''name'', JStr ''a''), (''url'', JStr url_a)]"

definition source_b :: json where
  "source_b = JObj [(''name'', JStr ''rbb24''), (''url'', JStr url_b)]"

definition sample_sources :: json where
  "sample_sources = JList [source_a, source_b]"

definition sample_config :: dict where
  "sample_config =
     [(''max_feed_bytes'', JInt 1000), (''sources'', sample_sources),
      (''match_logic'', JObj sample_logic)]"

text \<open>
  A configuration with a byte cap of 100: the second sample document is longer, the first
  is not.
\<close>

definition capped_config :: dict where
  "capped_config =
     [(''max_feed_bytes'', JInt 100), (''sources'', JList [source_b, source_a]),
      (''match_logic'', JObj sample_logic)]"

definition capped_settings :: settings where
  "capped_settings =
     \<lparr>timeout_s = 10, max_bytes = 100, notif_title = default_notif_title, sound = None,
      show_link = True\<rparr>"

text \<open>
  An environment with a seen log of one line, in which the temporary status file cannot be
  written.
\<close>

definition full_disk_world :: world where
  "full_disk_world =
     sample_world
       \<lparr>seen_file := Some (''old'' @ [CHR 0x0A]),
        fault := (\<lambda>op n. if op = WriteFile ''status.json.tmp''
                           then Some (OSError ''No space left on device'') else None)\<rparr>"

text \<open>An environment whose configuration file gives a word as the polling interval.\<close>

definition bad_interval_world :: world where
  "bad_interval_world =
     sample_world
       \<lparr>files := [CONFIG_PATH \<mapsto> Parsed (JObj [(''check_interval_seconds'', JStr ''abc'')])]\<rparr>"

definition only_b_config :: dict where
  "only_b_config =
     [(''max_feed_bytes'', JInt 1000), (''sources'', JList [source_b]),
      (''match_logic'', JObj sample_logic)]"

text \<open>A later start: the seen log has one line and nothing fails.\<close>

definition later_world :: world where
  "later_world = sample_world\<lparr>seen_file := Some (''old'' @ [CHR 0x0A])\<rparr>"

text \<open>
  A document whose only item has a \<open>guid\<close> of two lines, its tree, and an environment
  in which nothing fails and every URL serves that document.
\<close>

definition feed_c :: string where
  "feed_c = ''<rss><channel><item><title>Stromausfall Berlin Mitte</title><guid>x'' @
            [CHR 0x0A] @ ''y</guid></item></channel></rss>''"

definition tree_c :: element where
  "tree_c =
     Element ''rss'' [] None
       [Element ''channel'' [] None
          [Element ''item'' [] None
             [Element ''title'' [] (Some ''Stromausfall Berlin Mitte'') [],
              Element ''guid'' [] (Some (''x'' @ [CHR 0x0A] @ ''y'')) []]]]"

definition two_line_lib :: lib where
  "two_line_lib = sample_lib\<lparr>et_fromstring := (\<lambda>t. if t = feed_c then Some tree_c else None)\<rparr>"

definition two_line_world :: world where
  "two_line_world = later_world\<lparr>net := (\<lambda>url t n. Inr (take (nat n) feed_c))\<rparr>"




section \<open>The matcher\<close>

lemma startswith_iff: "startswith s p \<longleftrightarrow> (\<exists>ss. s = p @ ss)"
  unfolding startswith_def
  by (metis append_eq_conv_conj append_take_drop_id)

text \<open>\<open>py_in\<close> is the substring relation.\<close>

lemma py_in_iff: "py_in n t \<longleftrightarrow> (\<exists>ps ss. t = ps @ n @ ss)"
proof (induction t)
  case Nil
  then show ?case by auto
next
  case (Cons c cs)
  show ?case
  proof
    assume "py_in n (c # cs)"
    then consider "startswith (c # cs) n" | "py_in n cs" by auto
    then show "\<exists>ps ss. c # cs = ps @ n @ ss"
    proof cases
      case 1
      then obtain ss where "c # cs = n @ ss" by (auto simp: startswith_iff)
      then have "c # cs = [] @ n @ ss" by simp
      then show ?thesis by blast
    next
      case 2
      then obtain ps ss where "cs = ps @ n @ ss" using Cons.IH by auto
      then have "c # cs = (c # ps) @ n @ ss" by simp
      then show ?thesis by blast
    qed
  next
    assume "\<exists>ps ss. c # cs = ps @ n @ ss"
    then obtain ps ss where eq: "c # cs = ps @ n @ ss" by blast
    show "py_in n (c # cs)"
    proof (cases ps)
      case Nil
      with eq have "startswith (c # cs) n" by (auto simp: startswith_iff)
      then show ?thesis by simp
    next
      case (Cons p ps')
      with eq have "cs = ps' @ n @ ss" by simp
      then have "py_in n cs" using Cons.IH by blast
      then show ?thesis by simp
    qed
  qed
qed

lemma ci_substring_iff:
  "ci_substring k ttl \<longleftrightarrow> (\<exists>ps ss. lower ttl = ps @ lower k @ ss)"
  by (simp add: ci_substring_def py_in_iff)

lemma lower_Nil_iff: "lower k = [] \<longleftrightarrow> k = []"
  by (simp add: lower_def)

lemma any_hit_lower:
  "any_hit (map lower ks) (lower ttl) \<longleftrightarrow> (\<exists>k\<in>set ks. k \<noteq> [] \<and> ci_substring k ttl)"
  by (auto simp: any_hit_def list_ex_iff ci_substring_def lower_Nil_iff)

lemma match_decision:
  assumes "as_dict (get_or cfg ''match_logic'' (JObj [])) = Inr logic"
    and "configured logic ''negative_keywords'' = Inr negs"
    and "configured logic ''locations'' = Inr locs"
    and "configured logic ''topics'' = Inr tops"
  shows "match ttl cfg = Inr
     ((\<forall>k\<in>set negs. k \<noteq> [] \<longrightarrow> \<not> ci_substring k ttl) \<and>
      (get_flag logic ''require_one_location'' \<longrightarrow> (\<exists>k\<in>set locs. k \<noteq> [] \<and> ci_substring k ttl)) \<and>
      (get_flag logic ''require_one_topic'' \<longrightarrow> (\<exists>k\<in>set tops. k \<noteq> [] \<and> ci_substring k ttl)))"
  using assms by (auto simp: match_def bindE_def Let_def any_hit_lower)

lemma sample_logic_facts:
  "as_dict (get_or sample_config ''match_logic'' (JObj [])) = Inr sample_logic"
  "configured sample_logic ''negative_keywords'' = Inr [[]]"
  "configured sample_logic ''locations'' = Inr [''Berlin'']"
  "configured sample_logic ''topics'' = Inr [''Stromausfall'']"
  "get_flag sample_logic ''require_one_location''"
  "get_flag sample_logic ''require_one_topic''"
  by code_simp+

lemma sample_title_hits:
  "ci_substring ''Berlin'' ''Stromausfall Berlin Mitte''"
  "ci_substring ''Stromausfall'' ''Stromausfall Berlin Mitte''"
  "ci_substring [] ''Stromausfall Berlin Mitte''"
  by code_simp+

text \<open>
  C2, as amended.  When the three keyword lists of \<open>match_logic\<close> can be read,
  \<open>match\<close> returns true exactly if no non-empty negative keyword is a case-insensitive
  substring of the title, and (if \<open>require_one_location\<close>, default true) some non-empty
  location keyword is one, and (if \<open>require_one_topic\<close>, default true) some non-empty
  topic keyword is one.  In particular a title with a non-empty negative keyword is never
  matched.
\<close>

theorem match_iff_nonempty_keywords:
  assumes "as_dict (get_or cfg ''match_logic'' (JObj [])) = Inr logic"
    and "configured logic ''negative_keywords'' = Inr negs"
    and "configured logic ''locations'' = Inr locs"
    and "configured logic ''topics'' = Inr tops"
  shows "match ttl cfg = Inr
     ((\<forall>k\<in>set negs. k \<noteq> [] \<longrightarrow> \<not> ci_substring k ttl) \<and>
      (get_flag logic ''require_one_location'' \<longrightarrow> (\<exists>k\<in>set locs. k \<noteq> [] \<and> ci_substring k ttl)) \<and>
      (get_flag logic ''require_one_topic'' \<longrightarrow> (\<exists>k\<in>set tops. k \<noteq> [] \<and> ci_substring k ttl)))"
  using assms by (rule match_decision)

theorem match_iff_nonempty_keywords_witness:
  "as_dict (get_or sample_config ''match_logic'' (JObj [])) = Inr sample_logic \<and>
   configured sample_logic ''negative_keywords'' = Inr [[]] \<and>
   configured sample_logic ''locations'' = Inr [''Berlin''] \<and>
   configured sample_logic ''topics'' = Inr [''Stromausfall''] \<and>
   match ''Stromausfall Berlin Mitte'' sample_config = Inr True \<and>
   match ''Stromausfall in Potsdam'' sample_config = Inr False"
proof -
  have n: "\<not> ci_substring ''Berlin'' ''Stromausfall in Potsdam''" by code_simp
  have "match ''Stromausfall Berlin Mitte'' sample_config = Inr True"
    using match_iff_nonempty_keywords [OF sample_logic_facts(1-4), of "''Stromausfall Berlin Mitte''"]
      sample_logic_facts(5,6) sample_title_hits by simp
  moreover have "match ''Stromausfall in Potsdam'' sample_config = Inr False"
    using match_iff_nonempty_keywords [OF sample_logic_facts(1-4), of "''Stromausfall in Potsdam''"]
      sample_logic_facts(5,6) n by simp
  ultimately show ?thesis using sample_logic_facts(1-4) by simp
qed

text \<open>
  C2 as stated fails: the empty string is a configured negative keyword and a
  case-insensitive substring of the title, and the title is matched all the same.
\<close>

theorem match_empty_negative_counterexample:
  "configured sample_logic ''negative_keywords'' = Inr [[]] \<and>
   ci_substring [] ''Stromausfall Berlin Mitte'' \<and>
   match ''Stromausfall Berlin Mitte'' sample_config = Inr True"
  by code_simp

text \<open>
  C10.  When the keyword lists can be read: if \<open>require_one_location\<close> holds (its
  default) and no location is configured, \<open>match\<close> returns false for every title; the
  same for \<open>require_one_topic\<close> and the topics; a configuration without
  \<open>match_logic\<close> entries accepts no title; and removing the empty strings from the three
  lists does not change the result.
\<close>

theorem match_needs_keywords:
  assumes "as_dict (get_or cfg ''match_logic'' (JObj [])) = Inr logic"
    and "configured logic ''negative_keywords'' = Inr negs"
    and "configured logic ''locations'' = Inr locs"
    and "configured logic ''topics'' = Inr tops"
  shows "(get_flag logic ''require_one_location'' \<and> locs = [] \<longrightarrow> match ttl cfg = Inr False) \<and>
         (get_flag logic ''require_one_topic'' \<and> tops = [] \<longrightarrow> match ttl cfg = Inr False) \<and>
         (logic = [] \<longrightarrow> match ttl cfg = Inr False) \<and>
         (\<forall>cfg' logic'.
            as_dict (get_or cfg' ''match_logic'' (JObj [])) = Inr logic' \<and>
            configured logic' ''negative_keywords'' = Inr (filter (\<lambda>k. k \<noteq> []) negs) \<and>
            configured logic' ''locations'' = Inr (filter (\<lambda>k. k \<noteq> []) locs) \<and>
            configured logic' ''topics'' = Inr (filter (\<lambda>k. k \<noteq> []) tops) \<and>
            get_flag logic' ''require_one_location'' = get_flag logic ''require_one_location'' \<and>
            get_flag logic' ''require_one_topic'' = get_flag logic ''require_one_topic''
            \<longrightarrow> match ttl cfg' = match ttl cfg)"
proof -
  note m = match_decision
  have a: "get_flag logic ''require_one_location'' \<and> locs = [] \<longrightarrow> match ttl cfg = Inr False"
    using m [OF assms, of ttl] by simp
  have b: "get_flag logic ''require_one_topic'' \<and> tops = [] \<longrightarrow> match ttl cfg = Inr False"
    using m [OF assms, of ttl] by simp
  have c: "logic = [] \<longrightarrow> match ttl cfg = Inr False"
    using m [OF assms, of ttl] assms(3)
    by (auto simp: get_flag_def configured_def get_or_def py_iter_def bindE_def)
  have d: "match ttl cfg' = match ttl cfg"
    if "as_dict (get_or cfg' ''match_logic'' (JObj [])) = Inr logic'"
      and "configured logic' ''negative_keywords'' = Inr (filter (\<lambda>k. k \<noteq> []) negs)"
      and "configured logic' ''locations'' = Inr (filter (\<lambda>k. k \<noteq> []) locs)"
      and "configured logic' ''topics'' = Inr (filter (\<lambda>k. k \<noteq> []) tops)"
      and "get_flag logic' ''require_one_location'' = get_flag logic ''require_one_location''"
      and "get_flag logic' ''require_one_topic'' = get_flag logic ''require_one_topic''"
    for cfg' logic'
    using m [OF assms, of ttl] m [OF that(1-4), of ttl] that(5,6) by auto
  from a b c d show ?thesis by blast
qed

theorem match_needs_keywords_witness:
  "match ''Stromausfall Berlin Mitte'' [] = Inr False \<and>
   match ''Stromausfall Berlin Mitte''
     [(''match_logic'', JObj [(''topics'', JList [JStr ''Stromausfall''])])] = Inr False \<and>
   match ''Stromausfall Berlin Mitte''
     [(''match_logic'', JObj [(''locations'', JList [JStr ''Berlin''])])] = Inr False \<and>
   match ''Stromausfall Berlin Mitte''
     [(''match_logic'', JObj [(''locations'', JList [JStr ''Berlin'']),
                              (''topics'', JList [JStr ''Stromausfall''])])] =
   match ''Stromausfall Berlin Mitte'' sample_config"
proof -
  let ?t = "''Stromausfall Berlin Mitte''"
  let ?c0 = "[] :: dict"
  let ?l1 = "[(''topics'', JList [JStr ''Stromausfall''])]"
  let ?l2 = "[(''locations'', JList [JStr ''Berlin''])]"
  let ?l3 = "[(''locations'', JList [JStr ''Berlin'']), (''topics'', JList [JStr ''Stromausfall''])]"
  have e0: "as_dict (get_or ?c0 ''match_logic'' (JObj [])) = Inr []"
    "configured [] ''negative_keywords'' = Inr []" "configured [] ''locations'' = Inr []"
    "configured [] ''topics'' = Inr []"
    by code_simp+
  have e1: "as_dict (get_or [(''match_logic'', JObj ?l1)] ''match_logic'' (JObj [])) = Inr ?l1"
    "configured ?l1 ''negative_keywords'' = Inr []" "configured ?l1 ''locations'' = Inr []"
    "configured ?l1 ''topics'' = Inr [''Stromausfall'']" "get_flag ?l1 ''require_one_location''"
    by code_simp+
  have e2: "as_dict (get_or [(''match_logic'', JObj ?l2)] ''match_logic'' (JObj [])) = Inr ?l2"
    "configured ?l2 ''negative_keywords'' = Inr []" "configured ?l2 ''locations'' = Inr [''Berlin'']"
    "configured ?l2 ''topics'' = Inr []" "get_flag ?l2 ''require_one_topic''"
    by code_simp+
  have e3: "as_dict (get_or [(''match_logic'', JObj ?l3)] ''match_logic'' (JObj [])) = Inr ?l3"
    "configured ?l3 ''negative_keywords'' = Inr (filter (\<lambda>k. k \<noteq> []) [[]])"
    "configured ?l3 ''locations'' = Inr (filter (\<lambda>k. k \<noteq> []) [''Berlin''])"
    "configured ?l3 ''topics'' = Inr (filter (\<lambda>k. k \<noteq> []) [''Stromausfall''])"
    "get_flag ?l3 ''require_one_location'' = get_flag sample_logic ''require_one_location''"
    "get_flag ?l3 ''require_one_topic'' = get_flag sample_logic ''require_one_topic''"
    by code_simp+
  have "match ?t [] = Inr False"
    using match_needs_keywords [OF e0, of ?t] by simp
  moreover have "match ?t [(''match_logic'', JObj ?l1)] = Inr False"
    using match_needs_keywords [OF e1(1-4), of ?t] e1(5) by simp
  moreover have "match ?t [(''match_logic'', JObj ?l2)] = Inr False"
    using match_needs_keywords [OF e2(1-4), of ?t] e2(5) by simp
  moreover have "match ?t [(''match_logic'', JObj ?l3)] = match ?t sample_config"
    using match_needs_keywords [OF sample_logic_facts(1-4), of ?t] e3 by blast
  ultimately show ?thesis by simp
qed

section \<open>Configuration and status files\<close>

lemma attempt_simps [simp]:
  "fst (attempt op w) = fault w op (ticks w)"
  "files (snd (attempt op w)) = files w"
  "seen_file (snd (attempt op w)) = seen_file w"
  "log_file (snd (attempt op w)) = log_file w"
  "spawned (snd (attempt op w)) = spawned w"
  "alerted (snd (attempt op w)) = alerted w"
  "slept (snd (attempt op w)) = slept w"
  "net (snd (attempt op w)) = net w"
  "now (snd (attempt op w)) = now w"
  "pid (snd (attempt op w)) = pid w"
  "fault (snd (attempt op w)) = fault w"
  "ticks (snd (attempt op w)) = Suc (ticks w)"
  by (simp_all add: attempt_def)

lemma attempt_eq: "attempt op w = (fault w op (ticks w), w\<lparr>ticks := Suc (ticks w)\<rparr>)"
  by (simp add: attempt_def)

lemma safe_read_json_not_object:
  "\<not> holds_object (files w path) \<Longrightarrow> fst (safe_read_json path w) = []"
  by (auto simp: safe_read_json_def holds_object_def attempt_eq
           split: option.splits jfile.splits json.splits)

lemma load_config_not_object:
  "\<not> holds_object (files w CONFIG_PATH) \<Longrightarrow> fst (load_config w) = default_config"
  using safe_read_json_not_object [of w CONFIG_PATH]
  by (auto simp: load_config_def Let_def split: prod.splits)

text \<open>
  C8.  Whenever the configuration file is absent, is not parseable JSON, or holds JSON
  that is not an object, \<open>load_config\<close> returns the default configuration, in which
  \<open>enabled\<close> is true and \<open>sources\<close> is the empty list.  (\<open>load_config\<close> has no
  exceptional result: every exception of the read is caught in \<open>safe_read_json\<close>.)
\<close>

theorem load_config_defaults:
  assumes "\<not> holds_object (files w CONFIG_PATH)"
  shows "fst (load_config w) = default_config \<and>
         map_of (fst (load_config w)) ''enabled'' = Some (JBool True) \<and>
         map_of (fst (load_config w)) ''sources'' = Some (JList [])"
  using load_config_not_object [OF assms] by (simp add: default_config_def)

theorem load_config_defaults_witness:
  "\<not> holds_object (files sample_world CONFIG_PATH) \<and>
   \<not> holds_object (files (sample_world\<lparr>files := [CONFIG_PATH \<mapsto> Malformed]\<rparr>) CONFIG_PATH) \<and>
   \<not> holds_object (files (sample_world\<lparr>files := [CONFIG_PATH \<mapsto> Parsed (JList [JInt 1])]\<rparr>)
                      CONFIG_PATH) \<and>
   fst (load_config sample_world) = default_config \<and>
   fst (load_config (sample_world\<lparr>files := [CONFIG_PATH \<mapsto> Malformed]\<rparr>)) = default_config \<and>
   fst (load_config (sample_world\<lparr>files := [CONFIG_PATH \<mapsto> Parsed (JList [JInt 1])]\<rparr>)) =
     default_config"
proof -
  have h1: "\<not> holds_object (files sample_world CONFIG_PATH)"
    by (simp add: holds_object_def sample_world_def)
  have h2: "\<not> holds_object (files (sample_world\<lparr>files := [CONFIG_PATH \<mapsto> Malformed]\<rparr>) CONFIG_PATH)"
    by (simp add: holds_object_def)
  have h3: "\<not> holds_object
              (files (sample_world\<lparr>files := [CONFIG_PATH \<mapsto> Parsed (JList [JInt 1])]\<rparr>) CONFIG_PATH)"
    by (simp add: holds_object_def)
  show ?thesis
    using load_config_defaults [OF h1] load_config_defaults [OF h2] load_config_defaults [OF h3]
      h1 h2 h3 by simp
qed

subsection \<open>Merging the status\<close>

lemma map_of_dict_set: "map_of (dict_set d k v) = (map_of d)(k \<mapsto> v)"
  by (induction d) (auto simp: fun_eq_iff)

lemma map_of_dict_update:
  "distinct (map fst kwargs) \<Longrightarrow>
   map_of (dict_update base kwargs) k =
     (case map_of kwargs k of Some v \<Rightarrow> Some v | None \<Rightarrow> map_of base k)"
  unfolding dict_update_def
proof (induction kwargs arbitrary: base)
  case Nil
  then show ?case by simp
next
  case (Cons kv kwargs)
  obtain k' v' where kv: "kv = (k', v')" by (cases kv)
  from Cons.prems kv have d: "distinct (map fst kwargs)" and n: "map_of kwargs k' = None"
    by (auto simp: map_of_eq_None_iff)
  show ?case
    using Cons.IH [OF d, of "dict_set base k' v'"] kv n
    by (auto simp: map_of_dict_set split: option.splits)
qed

lemma safe_read_json_previous:
  "fault w (ReadFile STATUS_PATH) (ticks w) = None \<Longrightarrow>
   fst (safe_read_json STATUS_PATH w) = previous_status w"
  by (auto simp: safe_read_json_def previous_status_def attempt_eq
           split: option.splits jfile.splits json.splits)

lemma safe_read_json_files [simp]: "files (snd (safe_read_json path w)) = files w"
  by (auto simp: safe_read_json_def attempt_eq split: option.splits jfile.splits json.splits)

lemma write_json_atomic_result:
  assumes "write_json_atomic path data w = (res, w')"
  shows "(res = None \<longrightarrow>
            files w' = (files w)(path \<mapsto> Parsed (JObj data), path @ ''.tmp'' := None)) \<and>
         (res \<noteq> None \<longrightarrow> files w' path = files w path)"
  using assms
  by (auto simp: write_json_atomic_def Let_def attempt_eq fun_eq_iff
           split: option.splits if_splits)

lemma update_status_result:
  assumes "update_status kwargs w = (res, w')"
    and "fault w (ReadFile STATUS_PATH) (ticks w) = None"
  shows "(res = None \<longrightarrow>
            files w' = (files w)(STATUS_PATH \<mapsto> Parsed (JObj (dict_update (previous_status w) kwargs)),
                                 STATUS_PATH @ ''.tmp'' := None)) \<and>
         (res \<noteq> None \<longrightarrow> files w' STATUS_PATH = files w STATUS_PATH)"
proof (cases "files w STATUS_PATH = None")
  case True
  then have p: "previous_status w = []" by (simp add: previous_status_def)
  from assms(1) True have "write_json_atomic STATUS_PATH (dict_update [] kwargs) w = (res, w')"
    by (simp add: update_status_def)
  from write_json_atomic_result [OF this] p show ?thesis by simp
next
  case False
  obtain base w1 where r: "safe_read_json STATUS_PATH w = (base, w1)" by (cases "safe_read_json STATUS_PATH w")
  have b: "base = previous_status w" using safe_read_json_previous [OF assms(2)] r by simp
  have f: "files w1 = files w" using safe_read_json_files [of STATUS_PATH w] r by simp
  from assms(1) False r have "write_json_atomic STATUS_PATH (dict_update base kwargs) w1 = (res, w')"
    by (simp add: update_status_def)
  from write_json_atomic_result [OF this] b f show ?thesis by simp
qed

text \<open>
  C7.  Let the new field set have distinct keys and let the status file be readable.  If
  \<open>update_status\<close> completes, the status file holds an object in which every key of
  the new field set has its new value and every other key has the value that the previous
  status gave it (none if it had none); the temporary file has been renamed away.  If
  \<open>update_status\<close> raises, the status file is as it was.
\<close>

theorem update_status_merges:
  assumes "distinct (map fst kwargs)"
    and "fault w (ReadFile STATUS_PATH) (ticks w) = None"
    and "update_status kwargs w = (res, w')"
  shows "(res = None \<longrightarrow>
           (\<exists>merged. files w' STATUS_PATH = Some (Parsed (JObj merged)) \<and>
              (\<forall>k v. map_of kwargs k = Some v \<longrightarrow> map_of merged k = Some v) \<and>
              (\<forall>k. map_of kwargs k = None \<longrightarrow> map_of merged k = map_of (previous_status w) k)) \<and>
           files w' (STATUS_PATH @ ''.tmp'') = None) \<and>
         (res \<noteq> None \<longrightarrow> files w' STATUS_PATH = files w STATUS_PATH)"
proof -
  note r = update_status_result [OF assms(3) assms(2)]
  have ne: "STATUS_PATH \<noteq> STATUS_PATH @ ''.tmp''" by simp
  show ?thesis
  proof (intro conjI impI)
    assume ok: "res = None"
    with r have f: "files w' = (files w)(STATUS_PATH \<mapsto> Parsed (JObj (dict_update (previous_status w) kwargs)),
                                 STATUS_PATH @ ''.tmp'' := None)" by simp
    let ?m = "dict_update (previous_status w) kwargs"
    have "files w' STATUS_PATH = Some (Parsed (JObj ?m))" using f ne by simp
    moreover have "\<forall>k v. map_of kwargs k = Some v \<longrightarrow> map_of ?m k = Some v"
      by (simp add: map_of_dict_update [OF assms(1)])
    moreover have "\<forall>k. map_of kwargs k = None \<longrightarrow> map_of ?m k = map_of (previous_status w) k"
      by (simp add: map_of_dict_update [OF assms(1)])
    ultimately show "\<exists>merged. files w' STATUS_PATH = Some (Parsed (JObj merged)) \<and>
              (\<forall>k v. map_of kwargs k = Some v \<longrightarrow> map_of merged k = Some v) \<and>
              (\<forall>k. map_of kwargs k = None \<longrightarrow> map_of merged k = map_of (previous_status w) k)"
      by blast
    show "files w' (STATUS_PATH @ ''.tmp'') = None" using f by simp
  next
    assume "res \<noteq> None"
    with r show "files w' STATUS_PATH = files w STATUS_PATH" by simp
  qed
qed

theorem update_status_merges_witness:
  "distinct (map fst [(''ok'', JBool True), (''hits'', JInt 2)]) \<and>
   fault (sample_world\<lparr>files := [STATUS_PATH \<mapsto>
            Parsed (JObj [(''ok'', JBool False), (''started_at'', JStr ''t0'')])]\<rparr>)
     (ReadFile STATUS_PATH) 0 = None \<and>
   fst (update_status [(''ok'', JBool True), (''hits'', JInt 2)]
          (sample_world\<lparr>files := [STATUS_PATH \<mapsto>
             Parsed (JObj [(''ok'', JBool False), (''started_at'', JStr ''t0'')])]\<rparr>)) = None \<and>
   (\<exists>merged.
      files (snd (update_status [(''ok'', JBool True), (''hits'', JInt 2)]
                    (sample_world\<lparr>files := [STATUS_PATH \<mapsto>
                       Parsed (JObj [(''ok'', JBool False), (''started_at'', JStr ''t0'')])]\<rparr>)))
        STATUS_PATH = Some (Parsed (JObj merged)) \<and>
      map_of merged ''ok'' = Some (JBool True) \<and>
      map_of merged ''hits'' = Some (JInt 2) \<and>
      map_of merged ''started_at'' = Some (JStr ''t0'')) \<and>
   fst (update_status [(''ok'', JBool True)]
          (sample_world\<lparr>fault := (\<lambda>op n. if op = WriteFile ''status.json.tmp''
                                           then Some (OSError ''disk full'') else None)\<rparr>))
     = Some (OSError ''disk full'') \<and>
   files (snd (update_status [(''ok'', JBool True)]
          (sample_world\<lparr>fault := (\<lambda>op n. if op = WriteFile ''status.json.tmp''
                                           then Some (OSError ''disk full'') else None)\<rparr>)))
     STATUS_PATH = None"
proof -
  let ?kw = "[(''ok'', JBool True), (''hits'', JInt 2)]"
  let ?old = "[(''ok'', JBool False), (''started_at'', JStr ''t0'')]"
  let ?w = "sample_world\<lparr>files := [STATUS_PATH \<mapsto> Parsed (JObj ?old)]\<rparr>"
  let ?v = "sample_world\<lparr>fault := (\<lambda>op n. if op = WriteFile ''status.json.tmp''
                                           then Some (OSError ''disk full'') else None)\<rparr>"
  have d: "distinct (map fst ?kw)" by simp
  have t: "ticks ?w = 0" "ticks ?v = 0" by (simp_all add: sample_world_def)
  have f: "fault ?w (ReadFile STATUS_PATH) (ticks ?w) = None" by (simp add: sample_world_def)
  have p: "previous_status ?w = ?old" by (simp add: previous_status_def)
  have ok: "fst (update_status ?kw ?w) = None"
    by (simp add: update_status_def safe_read_json_def write_json_atomic_def attempt_eq
        sample_world_def Let_def)
  have m: "(\<exists>merged. files (snd (update_status ?kw ?w)) STATUS_PATH = Some (Parsed (JObj merged)) \<and>
              (\<forall>k v. map_of ?kw k = Some v \<longrightarrow> map_of merged k = Some v) \<and>
              (\<forall>k. map_of ?kw k = None \<longrightarrow> map_of merged k = map_of (previous_status ?w) k))"
  proof -
    have eq: "update_status ?kw ?w = (None, snd (update_status ?kw ?w))"
      using ok by (metis prod.collapse)
    show ?thesis using update_status_merges [OF d f eq] by blast
  qed
  then obtain merged where
    m1: "files (snd (update_status ?kw ?w)) STATUS_PATH = Some (Parsed (JObj merged))" and
    m2: "\<forall>k v. map_of ?kw k = Some v \<longrightarrow> map_of merged k = Some v" and
    m3: "\<forall>k. map_of ?kw k = None \<longrightarrow> map_of merged k = map_of (previous_status ?w) k"
    by blast
  have "map_of merged ''ok'' = Some (JBool True)" using m2 by simp
  moreover have "map_of merged ''hits'' = Some (JInt 2)" using m2 by simp
  moreover have "map_of merged ''started_at'' = Some (JStr ''t0'')" using m3 p by simp
  ultimately have e: "\<exists>merged. files (snd (update_status ?kw ?w)) STATUS_PATH = Some (Parsed (JObj merged)) \<and>
      map_of merged ''ok'' = Some (JBool True) \<and> map_of merged ''hits'' = Some (JInt 2) \<and>
      map_of merged ''started_at'' = Some (JStr ''t0'')"
    using m1 by blast
  have d1: "distinct (map fst [(''ok'', JBool True)])" by simp
  have f1: "fault ?v (ReadFile STATUS_PATH) (ticks ?v) = None" by (simp add: STATUS_PATH_def)
  have bad: "fst (update_status [(''ok'', JBool True)] ?v) = Some (OSError ''disk full'')"
    by (simp add: update_status_def write_json_atomic_def attempt_eq sample_world_def Let_def
        STATUS_PATH_def)
  have "files (snd (update_status [(''ok'', JBool True)] ?v)) STATUS_PATH = files ?v STATUS_PATH"
  proof -
    have eq: "update_status [(''ok'', JBool True)] ?v =
                (Some (OSError ''disk full''), snd (update_status [(''ok'', JBool True)] ?v))"
      using bad by (metis prod.collapse)
    show ?thesis using update_status_merges [OF d1 f1 eq] by blast
  qed
  then have u: "files (snd (update_status [(''ok'', JBool True)] ?v)) STATUS_PATH = None"
    by (simp add: sample_world_def)
  from d f t ok e bad u show ?thesis by simp
qed

section \<open>Parsing a feed\<close>
























section \<open>What the operations leave alone\<close>

lemma same_setting_refl [simp]: "same_setting w w"
  by (simp add: same_setting_def)

lemma same_setting_trans: "same_setting a b \<Longrightarrow> same_setting b c \<Longrightarrow> same_setting a c"
  by (simp add: same_setting_def)

lemma same_setting_alerted [simp]: "same_setting w (w'\<lparr>alerted := x\<rparr>) = same_setting w w'"
  by (simp add: same_setting_def)

lemma log_frame [simp]:
  "files (log m w) = files w" "seen_file (log m w) = seen_file w"
  "spawned (log m w) = spawned w" "alerted (log m w) = alerted w"
  "slept (log m w) = slept w" "same_setting w (log m w)"
  by (auto simp: log_def Let_def attempt_eq same_setting_def split: option.splits)

lemma run_quietly_frame [simp]:
  "files (run_quietly a w) = files w" "seen_file (run_quietly a w) = seen_file w"
  "log_file (run_quietly a w) = log_file w" "alerted (run_quietly a w) = alerted w"
  "slept (run_quietly a w) = slept w" "same_setting w (run_quietly a w)"
  by (auto simp: run_quietly_def attempt_eq same_setting_def split: option.splits)

lemma notify_frame [simp]:
  "files (notify t b s w) = files w" "seen_file (notify t b s w) = seen_file w"
  "log_file (notify t b s w) = log_file w" "alerted (notify t b s w) = alerted w"
  "slept (notify t b s w) = slept w" "same_setting w (notify t b s w)"
  by (auto simp: notify_def Let_def same_setting_def split: option.splits
           intro: same_setting_trans)
     (use run_quietly_frame(6) in \<open>auto simp: same_setting_def\<close>)

lemma append_seen_frame [simp]:
  "files (append_seen u w) = files w" "log_file (append_seen u w) = log_file w"
  "spawned (append_seen u w) = spawned w" "alerted (append_seen u w) = alerted w"
  "slept (append_seen u w) = slept w" "same_setting w (append_seen u w)"
  by (auto simp: append_seen_def attempt_eq same_setting_def split: option.splits)

lemma safe_read_json_frame [simp]:
  "seen_file (snd (safe_read_json p w)) = seen_file w"
  "log_file (snd (safe_read_json p w)) = log_file w"
  "spawned (snd (safe_read_json p w)) = spawned w"
  "alerted (snd (safe_read_json p w)) = alerted w"
  "slept (snd (safe_read_json p w)) = slept w"
  "same_setting w (snd (safe_read_json p w))"
  by (auto simp: safe_read_json_def attempt_eq same_setting_def
           split: option.splits jfile.splits json.splits)

lemma write_json_atomic_frame [simp]:
  "seen_file (snd (write_json_atomic p d w)) = seen_file w"
  "log_file (snd (write_json_atomic p d w)) = log_file w"
  "spawned (snd (write_json_atomic p d w)) = spawned w"
  "alerted (snd (write_json_atomic p d w)) = alerted w"
  "slept (snd (write_json_atomic p d w)) = slept w"
  "same_setting w (snd (write_json_atomic p d w))"
  by (auto simp: write_json_atomic_def Let_def attempt_eq same_setting_def split: option.splits)

lemma update_status_frame [simp]:
  "seen_file (snd (update_status kw w)) = seen_file w"
  "log_file (snd (update_status kw w)) = log_file w"
  "spawned (snd (update_status kw w)) = spawned w"
  "alerted (snd (update_status kw w)) = alerted w"
  "slept (snd (update_status kw w)) = slept w"
  "same_setting w (snd (update_status kw w))"
proof -
  have s: "same_setting w (snd (write_json_atomic p d (snd (safe_read_json q w))))" for p d q
    using same_setting_trans [OF safe_read_json_frame(6) write_json_atomic_frame(6)] .
  show "seen_file (snd (update_status kw w)) = seen_file w"
    "log_file (snd (update_status kw w)) = log_file w"
    "spawned (snd (update_status kw w)) = spawned w"
    "alerted (snd (update_status kw w)) = alerted w"
    "slept (snd (update_status kw w)) = slept w"
    "same_setting w (snd (update_status kw w))"
    using s by (auto simp: update_status_def Let_def split: prod.splits)
       (metis safe_read_json_frame snd_conv write_json_atomic_frame)+
qed

lemma mark_seen_setting: "same_setting w (env r) \<Longrightarrow> same_setting w (env (mark_seen u r))"
  by (auto simp: mark_seen_def intro: same_setting_trans [OF _ append_seen_frame(6)])

lemma prime_fold_setting:
  "same_setting w (env r) \<Longrightarrow>
   same_setting w (env (fold (\<lambda>e r. if uid e \<notin> seen r then mark_seen (uid e) r else r) es r))"
  by (induction es arbitrary: r) (auto simp: mark_seen_setting)

lemma prime_seen_setting: "same_setting w (env r) \<Longrightarrow> same_setting w (env (prime_seen es r))"
  unfolding prime_seen_def by (rule prime_fold_setting)

lemma process_entry_setting:
  assumes "process_entry cfg st name e r = (res, r')" and "same_setting w (env r)"
  shows "same_setting w (env r')"
proof -
  let ?w2 = "notify (notif_title st)
               (if show_link st \<and> link e \<noteq> [] then title e @ [CHR 0x0A] @ link e else title e)
               (sound st) (log (''HIT ('' @ name @ ''): '' @ title e) (env r))"
  have a: "same_setting w ?w2"
    using assms(2) by (blast intro: same_setting_trans log_frame(6) notify_frame(6))
  have b: "same_setting w (snd (update_status kw (?w2\<lparr>alerted := x\<rparr>)))" for kw x
    using a same_setting_trans [OF _ update_status_frame(6), of w "?w2\<lparr>alerted := x\<rparr>" kw]
    by simp
  show ?thesis
    using assms a b
    by (auto simp: process_entry_def Let_def mark_seen_setting
             split: if_splits sum.splits bool.splits prod.splits option.splits
             intro!: mark_seen_setting)
       (metis snd_conv)+
qed

lemma process_entries_setting:
  "process_entries cfg st name es r = (res, r') \<Longrightarrow> same_setting w (env r) \<Longrightarrow>
   same_setting w (env r')"
proof (induction es arbitrary: r)
  case Nil
  then show ?case by simp
next
  case (Cons e es)
  obtain res1 r1 where p: "process_entry cfg st name e r = (res1, r1)"
    by (cases "process_entry cfg st name e r")
  have s: "same_setting w (env r1)" using process_entry_setting [OF p Cons.prems(2)] .
  show ?case
  proof (cases res1)
    case None
    with Cons.prems(1) p have "process_entries cfg st name es r1 = (res, r')" by simp
    then show ?thesis using Cons.IH s by blast
  next
    case (Some exc)
    with Cons.prems(1) p have "r' = r1" by simp
    then show ?thesis using s by simp
  qed
qed

lemma try_source_unfold:
  assumes "fetch url (timeout_s st) (max_bytes st) (env r) = Inr data"
    and "es = (if looks_like_html data then parse_html_links L data name url
               else parse_feed L data name)"
    and "r1 = r\<lparr>latest_items := dict_set (latest_items r) name
                                   (JList (map as_public_item (take 10 es)))\<rparr>"
  shows "try_source L cfg st name url r =
           (if seen r = {} \<and> get_flag cfg ''prime_on_first_run''
            then (None, (prime_seen es r1)\<lparr>env :=
                    log (''[prime] '' @ name @ '': primed '' @
                         show_int (min (int (length es)) 50) @ '' items as seen'')
                      (env (prime_seen es r1))\<rparr>)
            else process_entries cfg st name (take 80 es) r1)"
  unfolding assms(2,3) using assms(1) by (simp add: try_source_def Let_def)

lemma try_source_setting:
  assumes "try_source L cfg st name url r = (res, r')" and "same_setting w (env r)"
  shows "same_setting w (env r')"
proof (cases "fetch url (timeout_s st) (max_bytes st) (env r)")
  case (Inl exc)
  with assms show ?thesis by (simp add: try_source_def)
next
  case (Inr data)
  define es where "es = (if looks_like_html data then parse_html_links L data name url
                         else parse_feed L data name)"
  define r1 where "r1 = r\<lparr>latest_items := dict_set (latest_items r) name
                                   (JList (map as_public_item (take 10 es)))\<rparr>"
  note u = try_source_unfold [OF Inr es_def r1_def, of cfg]
  have s1: "same_setting w (env r1)" using assms(2) by (simp add: r1_def)
  show ?thesis
  proof (cases "seen r = {} \<and> get_flag cfg ''prime_on_first_run''")
    case True
    with assms(1) u obtain m where
      r': "r' = (prime_seen es r1)\<lparr>env := log m (env (prime_seen es r1))\<rparr>"
      by auto
    have "same_setting w (env (prime_seen es r1))" using prime_seen_setting [OF s1] .
    then show ?thesis
      unfolding r' using same_setting_trans [OF _ log_frame(6)] by simp
  next
    case False
    with assms(1) u have "process_entries cfg st name (take 80 es) r1 = (res, r')"
      by auto
    then show ?thesis using process_entries_setting s1 by blast
  qed
qed

lemma process_source_setting:
  assumes "process_source L cfg st src r = (res, r')" and "same_setting w (env r)"
  shows "same_setting w (env r')"
proof (cases "as_dict (if truthy src then src else JObj [])")
  case (Inl exc)
  with assms show ?thesis by (simp add: process_source_def)
next
  case (Inr d)
  let ?name = "py_str (get_or d ''name'' (JStr ''source''))"
  let ?url = "py_str (get_or d ''url'' (JStr []))"
  show ?thesis
  proof (cases "?url = []")
    case True
    with assms Inr show ?thesis by (simp add: process_source_def Let_def)
  next
    case False
    obtain res1 r1 where t: "try_source L cfg st ?name ?url (r\<lparr>checked := checked r + 1\<rparr>) = (res1, r1)"
      by (cases "try_source L cfg st ?name ?url (r\<lparr>checked := checked r + 1\<rparr>)")
    have s: "same_setting w (env r1)"
      using try_source_setting [OF t] assms(2) by simp
    show ?thesis
    proof (cases res1)
      case None
      with assms(1) Inr False t have "r' = r1" by (simp add: process_source_def Let_def)
      then show ?thesis using s by simp
    next
      case (Some exc)
      with assms(1) Inr False t
      have "\<exists>m x. r' = r1\<lparr>last_error := x, env := log m (env r1)\<rparr>"
        by (auto simp: process_source_def Let_def)
      then obtain m x where r': "r' = r1\<lparr>last_error := x, env := log m (env r1)\<rparr>" by blast
      show ?thesis unfolding r' using same_setting_trans [OF s log_frame(6)] by simp
    qed
  qed
qed

lemma run_sources_setting:
  "run_sources L cfg st srcs r = (res, r') \<Longrightarrow> same_setting w (env r) \<Longrightarrow>
   same_setting w (env r')"
proof (induction srcs arbitrary: r)
  case Nil
  then show ?case by simp
next
  case (Cons src srcs)
  obtain res1 r1 where p: "process_source L cfg st src r = (res1, r1)"
    by (cases "process_source L cfg st src r")
  have s: "same_setting w (env r1)" using process_source_setting [OF p Cons.prems(2)] .
  show ?case
  proof (cases res1)
    case None
    with Cons.prems(1) p have "run_sources L cfg st srcs r1 = (res, r')" by simp
    then show ?thesis using Cons.IH s by blast
  next
    case (Some exc)
    with Cons.prems(1) p have "r' = r1" by simp
    then show ?thesis using s by simp
  qed
qed

lemma run_sources_append:
  "run_sources L cfg st (pre @ post) r =
     (case run_sources L cfg st pre r of
        (Some exc, r') \<Rightarrow> (Some exc, r')
      | (None, r') \<Rightarrow> run_sources L cfg st post r')"
  by (induction pre arbitrary: r) (auto split: prod.splits option.splits)

section \<open>A source whose payload is too large\<close>

lemma fetch_too_large:
  assumes "net w url t (m + 1) = Inr body" and "m < int (length body)"
  shows "fetch url t m w = Inl (ValueError ''feed_too_large'')"
  using assms by (simp add: fetch_def)

lemma process_source_too_large:
  assumes "as_dict (if truthy src then src else JObj []) = Inr d"
    and "py_str (get_or d ''url'' (JStr [])) \<noteq> []"
    and "net (env r) (py_str (get_or d ''url'' (JStr []))) (timeout_s st) (max_bytes st + 1) = Inr body"
    and "max_bytes st < int (length body)"
  shows "process_source L cfg st src r =
           (None, r\<lparr>checked := checked r + 1,
                    last_error := Some (py_str (get_or d ''name'' (JStr ''source'')) @ '': feed_too_large''),
                    env := log (''warn: '' @ py_str (get_or d ''name'' (JStr ''source'')) @
                                '': feed_too_large'') (env r)\<rparr>)"
proof -
  have "fetch (py_str (get_or d ''url'' (JStr []))) (timeout_s st) (max_bytes st)
          (env (r\<lparr>checked := checked r + 1\<rparr>)) = Inl (ValueError ''feed_too_large'')"
    using fetch_too_large [OF assms(3,4)] by simp
  then show ?thesis
    using assms(1,2) by (simp add: process_source_def try_source_def Let_def)
qed

section \<open>Where the code falls short\<close>

lemma first_start_run:
  "(case cycle sample_lib sample_config sample_world of
      (res, r) \<Rightarrow> (res, alerted (env r), length (spawned (env r)), hits r)) =
   (None, [''b1'', ''b2''], 2, 2)"
  by code_simp

text \<open>
  C3, at a failing input: a first start (no seen log, priming enabled by default) with two
  sources.  The first source is primed; that makes the set of seen uids non-empty, so the
  second source is not primed and both of its entries are notified.
\<close>

theorem priming_stops_after_first_source:
  "seen_file sample_world = None \<and>
   get_flag sample_config ''prime_on_first_run'' \<and>
   fst (cycle sample_lib sample_config sample_world) = None \<and>
   alerted (env (snd (cycle sample_lib sample_config sample_world))) = [''b1'', ''b2''] \<and>
   length (spawned (env (snd (cycle sample_lib sample_config sample_world)))) = 2 \<and>
   hits (snd (cycle sample_lib sample_config sample_world)) = 2"
proof -
  have "seen_file sample_world = None" by (simp add: sample_world_def)
  moreover have "get_flag sample_config ''prime_on_first_run''" by code_simp
  ultimately show ?thesis using first_start_run by (simp add: case_prod_beta)
qed

lemma full_disk_run:
  "(case cycle sample_lib sample_config full_disk_world of
      (res, r) \<Rightarrow> (alerted (env r), ''b1'' \<in> seen r, ''b2'' \<in> seen r, seen_file (env r),
                    last_error r)) =
   ([''b1''], False, False, Some (''old'' @ [CHR 0x0A] @ ''a1'' @ [CHR 0x0A]),
    Some ''rbb24: No space left on device'')"
  by code_simp

text \<open>
  C6, at a failing input: the status file cannot be written.  The first entry of the
  second source is a hit; \<open>update_status\<close> raises in the middle of the hit handling,
  so the uid of that entry is not marked seen and the next entry of the source is not
  looked at.
\<close>

theorem status_failure_skips_marking:
  "alerted (env (snd (cycle sample_lib sample_config full_disk_world))) = [''b1''] \<and>
   ''b1'' \<notin> seen (snd (cycle sample_lib sample_config full_disk_world)) \<and>
   ''b2'' \<notin> seen (snd (cycle sample_lib sample_config full_disk_world)) \<and>
   seen_file (env (snd (cycle sample_lib sample_config full_disk_world))) =
     Some (''old'' @ [CHR 0x0A] @ ''a1'' @ [CHR 0x0A]) \<and>
   last_error (snd (cycle sample_lib sample_config full_disk_world)) =
     Some ''rbb24: No space left on device''"
  using full_disk_run by (simp add: case_prod_beta)

lemma main_loop_exits:
  "main_iteration L w = (Some exc, w') \<Longrightarrow> main_loop L w = Some (exc, w')"
  by (subst main_loop.simps) simp

text \<open>
  C1, at a failing input: the configuration file gives \<open>"abc"\<close> as
  \<open>check_interval_seconds\<close>.  The conversion to an integer happens outside the
  \<open>try\<close> of the loop, so the \<open>ValueError\<close> ends \<open>main\<close>.
\<close>

theorem main_exits_on_bad_interval:
  "map_option fst (main sample_lib bad_interval_world) =
     Some (ValueError (''invalid literal for int() with base 10: '' @
                       [CHR 0x27] @ ''abc'' @ [CHR 0x27]))"
proof -
  let ?kw = "[(''ok'', JBool True),
              (''started_at'', JStr (now_iso (log ''service starting'' bad_interval_world))),
              (''pid'', JInt (pid (log ''service starting'' bad_interval_world)))]"
  let ?u = "update_status ?kw (log ''service starting'' bad_interval_world)"
  let ?exc = "ValueError (''invalid literal for int() with base 10: '' @
                       [CHR 0x27] @ ''abc'' @ [CHR 0x27])"
  have a: "fst ?u = None" by code_simp
  have b: "fst (main_iteration sample_lib (snd ?u)) = Some ?exc" by code_simp
  have "main_iteration sample_lib (snd ?u) = (Some ?exc, snd (main_iteration sample_lib (snd ?u)))"
    using b by (metis prod.collapse)
  from main_loop_exits [OF this]
  have l: "main_loop sample_lib (snd ?u) = Some (?exc, snd (main_iteration sample_lib (snd ?u)))" .
  have "main sample_lib bad_interval_world = main_loop sample_lib (snd ?u)"
    using a by (simp add: main_def Let_def case_prod_beta)
  with l show ?thesis by simp
qed

section \<open>The seen log\<close>

lemma splitlines_from_closed_append:
  "t0 \<noteq> [] \<Longrightarrow> last t0 = CHR 0x0A \<Longrightarrow>
   splitlines_from cur (t0 @ s) = splitlines_from cur t0 @ splitlines_from [] s"
proof (induction cur t0 rule: splitlines_from.induct)
  case (1 cur)
  then show ?case by simp
next
  case (2 cur c cs)
  show ?case
  proof (cases "cs = []")
    case True
    with "2.prems" have c: "c = CHR 0x0A" by simp
    then have "linebreak c" by (simp add: linebreak_def ord_def)
    with True c show ?thesis by simp
  next
    case False
    with "2.prems" have l: "last cs = CHR 0x0A" by simp
    show ?thesis
    proof (cases "linebreak c")
      case lb: True
      show ?thesis
      proof (cases "c = CHR 0x0D \<and> hd cs = CHR 0x0A")
        case True
        then obtain cs' where cs: "cs = CHR 0x0A # cs'" using False by (cases cs) auto
        show ?thesis
        proof (cases "cs' = []")
          case True
          with cs lb \<open>c = CHR 0x0D \<and> hd cs = CHR 0x0A\<close> show ?thesis by simp
        next
          case ne: False
          with cs l have l': "last cs' = CHR 0x0A" by simp
          have "splitlines_from [] (cs' @ s) = splitlines_from [] cs' @ splitlines_from [] s"
            using "2.IH"(1) [OF lb] True False cs ne l' by simp
          with cs lb True show ?thesis by simp
        qed
      next
        case nocr: False
        have "splitlines_from [] (cs @ s) = splitlines_from [] cs @ splitlines_from [] s"
          using "2.IH"(1) [OF lb] nocr False l by auto
        with lb nocr False show ?thesis by auto
      qed
    next
      case nlb: False
      have "splitlines_from (c # cur) (cs @ s) =
              splitlines_from (c # cur) cs @ splitlines_from [] s"
        using "2.IH"(2) [OF nlb False l] .
      with nlb show ?thesis by simp
    qed
  qed
qed

lemma splitlines_from_single_line:
  "single_line u \<Longrightarrow> splitlines_from cur (u @ [CHR 0x0A]) = [rev cur @ u]"
proof (induction u arbitrary: cur)
  case Nil
  have "linebreak (CHR 0x0A)" by (simp add: linebreak_def ord_def)
  then show ?case by simp
next
  case (Cons c u)
  then have "\<not> linebreak c" and "single_line u" by (simp_all add: single_line_def)
  then show ?case using Cons.IH [of "c # cur"] by simp
qed

lemma splitlines_append_uid:
  assumes "txt = [] \<or> last txt = CHR 0x0A"
  shows "splitlines (txt @ s) = splitlines txt @ splitlines s"
proof (cases "txt = []")
  case True
  then show ?thesis by (simp add: splitlines_def)
next
  case False
  with assms show ?thesis
    unfolding splitlines_def by (simp add: splitlines_from_closed_append)
qed

lemma splitlines_single_line: "single_line u \<Longrightarrow> splitlines (u @ [CHR 0x0A]) = [u]"
  unfolding splitlines_def using splitlines_from_single_line [of u "[]"] by simp

lemma reliable_setting: "reliable w \<Longrightarrow> same_setting w w' \<Longrightarrow> reliable w'"
  by (simp add: reliable_def same_setting_def)

lemma reliable_attempt: "reliable w \<Longrightarrow> attempt op w = (None, w\<lparr>ticks := Suc (ticks w)\<rparr>)"
  by (simp add: reliable_def attempt_eq)

lemma append_seen_reliable:
  "reliable w \<Longrightarrow>
   seen_file (append_seen u w) =
     Some ((case seen_file w of None \<Rightarrow> [] | Some t \<Rightarrow> t) @ u @ [CHR 0x0A])"
  by (simp add: append_seen_def reliable_attempt)

lemma append_seen_closed: "reliable w \<Longrightarrow> seen_log_closed (append_seen u w)"
  by (simp add: seen_log_closed_def append_seen_reliable)

lemma append_seen_lines:
  assumes "reliable w" and "seen_log_closed w"
  shows "seen_lines (append_seen u w) = seen_lines w \<union> set (splitlines (u @ [CHR 0x0A]))"
proof (cases "seen_file w")
  case None
  then show ?thesis
    using assms(1) by (simp add: seen_lines_def append_seen_reliable splitlines_def)
next
  case (Some t)
  with assms(2) have c: "t = [] \<or> last t = CHR 0x0A" by (simp add: seen_log_closed_def)
  show ?thesis
    using assms(1) Some splitlines_append_uid [OF c, of "u @ [CHR 0x0A]"]
    by (simp add: seen_lines_def append_seen_reliable)
qed

lemma update_status_reliable: "reliable w \<Longrightarrow> fst (update_status kw w) = None"
proof -
  assume r: "reliable w"
  have w: "fst (write_json_atomic p d v) = None" if "reliable v" for p d v
    using that by (simp add: write_json_atomic_def Let_def reliable_def attempt_eq)
  have "reliable (snd (safe_read_json STATUS_PATH w))"
    using reliable_setting [OF r safe_read_json_frame(6)] .
  then show ?thesis
    using r w by (auto simp: update_status_def Let_def split: prod.splits)
qed

subsection \<open>Marking a uid\<close>

lemma mark_seen_effect:
  assumes "reliable (env r)" and "seen_log_closed (env r)"
  shows "reliable (env (mark_seen u r))"
    and "seen_log_closed (env (mark_seen u r))"
    and "seen (mark_seen u r) = insert u (seen r)"
    and "alerted (env (mark_seen u r)) = alerted (env r)"
    and "seen_lines (env r) \<subseteq> seen_lines (env (mark_seen u r))"
    and "single_line u \<Longrightarrow> u \<in> seen_lines (env (mark_seen u r))"
proof -
  show "reliable (env (mark_seen u r))"
    using reliable_setting [OF assms(1) append_seen_frame(6)] by (simp add: mark_seen_def)
  show "seen_log_closed (env (mark_seen u r))"
    using append_seen_closed [OF assms(1)] by (simp add: mark_seen_def)
  show "seen (mark_seen u r) = insert u (seen r)" by (simp add: mark_seen_def)
  show "alerted (env (mark_seen u r)) = alerted (env r)" by (simp add: mark_seen_def)
  show "seen_lines (env r) \<subseteq> seen_lines (env (mark_seen u r))"
    using append_seen_lines [OF assms] by (simp add: mark_seen_def)
  show "single_line u \<Longrightarrow> u \<in> seen_lines (env (mark_seen u r))"
    using append_seen_lines [OF assms, of u] by (simp add: mark_seen_def splitlines_single_line)
qed

lemma deduped_fields [simp]:
  "deduped u n (r\<lparr>hits := h\<rparr>) = deduped u n r"
  "deduped u n (r\<lparr>checked := c\<rparr>) = deduped u n r"
  "deduped u n (r\<lparr>last_error := x\<rparr>) = deduped u n r"
  "deduped u n (r\<lparr>latest_items := l\<rparr>) = deduped u n r"
  by (simp_all add: deduped_def)

lemma deduped_env:
  assumes "deduped u n r" and "same_setting (env r) w'"
    and "seen_file w' = seen_file (env r)" and "alerted w' = alerted (env r)"
  shows "deduped u n (r\<lparr>env := w'\<rparr>)"
  using assms reliable_setting [of "env r" w']
  by (auto simp: deduped_def seen_log_closed_def seen_lines_def)

lemma deduped_log: "deduped u n r \<Longrightarrow> deduped u n (r\<lparr>env := log m (env r)\<rparr>)"
  by (rule deduped_env) simp_all

lemma deduped_mark_seen:
  assumes "deduped u n r"
  shows "deduped u n (mark_seen x r)"
proof -
  from assms have p: "reliable (env r)" "seen_log_closed (env r)" by (simp_all add: deduped_def)
  note m = mark_seen_effect [OF p, of x]
  show ?thesis
    using assms m(1-5) by (auto simp: deduped_def)
qed

text \<open>The step that calls \<open>notify\<close> for \<open>x\<close> and then marks \<open>x\<close>.\<close>

lemma deduped_alert_mark:
  assumes "deduped u n r" and "single_line u" and "x \<notin> seen r"
    and "same_setting (env r) w'" and "seen_file w' = seen_file (env r)"
    and "alerted w' = alerted (env r) @ [x]"
  shows "deduped u n (mark_seen x (r\<lparr>env := w'\<rparr>))"
proof -
  from assms(1) have p: "reliable (env r)" "seen_log_closed (env r)" by (simp_all add: deduped_def)
  have p': "reliable (env (r\<lparr>env := w'\<rparr>))" "seen_log_closed (env (r\<lparr>env := w'\<rparr>))"
    using p assms(4,5) reliable_setting [of "env r" w'] by (simp_all add: seen_log_closed_def)
  note m = mark_seen_effect [OF p', of x]
  have lines: "seen_lines (env r) \<subseteq> seen_lines (env (mark_seen x (r\<lparr>env := w'\<rparr>)))"
    using m(5) assms(5) by (simp add: seen_lines_def)
  show ?thesis
  proof (cases "x = u")
    case True
    with assms(1,3) have c: "count_list (alerted (env r)) u = n" by (auto simp: deduped_def)
    have "count_list (alerted (env (mark_seen x (r\<lparr>env := w'\<rparr>)))) u = Suc n"
      using m(4) assms(6) True c by simp
    moreover have "u \<in> seen (mark_seen x (r\<lparr>env := w'\<rparr>))" using m(3) True by simp
    moreover have "u \<in> seen_lines (env (mark_seen x (r\<lparr>env := w'\<rparr>)))"
      using m(6) True assms(2) by simp
    ultimately show ?thesis using m(1,2) by (simp add: deduped_def)
  next
    case False
    then have "count_list (alerted (env (mark_seen x (r\<lparr>env := w'\<rparr>)))) u =
                 count_list (alerted (env r)) u"
      using m(4) assms(6) by simp
    moreover have "seen r \<subseteq> seen (mark_seen x (r\<lparr>env := w'\<rparr>))" using m(3) by auto
    ultimately show ?thesis
      using assms(1) m(1,2) lines by (auto simp: deduped_def)
  qed
qed

subsection \<open>The invariant along a cycle\<close>

lemma update_status_pair:
  assumes "update_status kw w = (res, w')"
  shows "seen_file w' = seen_file w" and "alerted w' = alerted w" and "same_setting w w'"
    and "reliable w \<Longrightarrow> res = None"
proof -
  have s: "w' = snd (update_status kw w)" and f: "res = fst (update_status kw w)"
    using assms by simp_all
  show "seen_file w' = seen_file w" "alerted w' = alerted w" "same_setting w w'"
    unfolding s by simp_all
  show "reliable w \<Longrightarrow> res = None" unfolding f by (rule update_status_reliable)
qed

lemma process_entry_hit:
  assumes "uid e \<notin> seen r" and "match (title e) cfg = Inr True" and "reliable (env r)"
    and "process_entry cfg st name e r = (res, r')"
  shows "\<exists>w3. same_setting (env r) w3 \<and> seen_file w3 = seen_file (env r) \<and>
              alerted w3 = alerted (env r) @ [uid e] \<and>
              r' = mark_seen (uid e) (r\<lparr>hits := hits r + 1, env := w3\<rparr>) \<and> res = None"
proof -
  define w2 where "w2 = notify (notif_title st)
      (if show_link st \<and> link e \<noteq> [] then title e @ [CHR 0x0A] @ link e else title e)
      (sound st) (log (''HIT ('' @ name @ ''): '' @ title e) (env r))"
  define kw where "kw = [(''last_hit_at'', JStr (now_iso (w2\<lparr>alerted := alerted w2 @ [uid e]\<rparr>))),
                         (''last_hit_title'', JStr (title e)),
                         (''last_hit_link'', JStr (link e)),
                         (''last_hit_source'', JStr name)]"
  obtain res3 w3 where u: "update_status kw (w2\<lparr>alerted := alerted w2 @ [uid e]\<rparr>) = (res3, w3)"
    by (cases "update_status kw (w2\<lparr>alerted := alerted w2 @ [uid e]\<rparr>)")
  have s2: "same_setting (env r) w2"
    unfolding w2_def by (blast intro: same_setting_trans log_frame(6) notify_frame(6))
  have a2: "alerted w2 = alerted (env r)" and f2: "seen_file w2 = seen_file (env r)"
    unfolding w2_def by simp_all
  have rel: "reliable (w2\<lparr>alerted := alerted w2 @ [uid e]\<rparr>)"
    using reliable_setting [OF assms(3) s2] by (simp add: reliable_def)
  note p = update_status_pair [OF u]
  have ok: "res3 = None" using p(4) rel by simp
  have s3: "same_setting (env r) w3"
    using same_setting_trans [OF _ p(3), of "env r"] s2 by simp
  have eq: "process_entry cfg st name e r =
              (case update_status kw (w2\<lparr>alerted := alerted w2 @ [uid e]\<rparr>) of
                 (Some exc, w3) \<Rightarrow> (Some exc, r\<lparr>hits := hits r + 1, env := w3\<rparr>)
               | (None, w3) \<Rightarrow> (None, mark_seen (uid e) (r\<lparr>hits := hits r + 1, env := w3\<rparr>)))"
    unfolding w2_def kw_def using assms(1,2) by (simp add: process_entry_def Let_def)
  have "r' = mark_seen (uid e) (r\<lparr>hits := hits r + 1, env := w3\<rparr>) \<and> res = None"
    using assms(4) u ok unfolding eq by auto
  moreover have "seen_file w3 = seen_file (env r)" using p(1) f2 by simp
  moreover have "alerted w3 = alerted (env r) @ [uid e]" using p(2) a2 by simp
  ultimately show ?thesis using s3 by blast
qed

lemma deduped_process_entry:
  assumes "deduped u n r" and "single_line u"
    and "process_entry cfg st name e r = (res, r')"
  shows "deduped u n r'"
proof (cases "uid e \<in> seen r")
  case True
  with assms(3) have "r' = r" by (simp add: process_entry_def)
  with assms(1) show ?thesis by simp
next
  case unseen: False
  show ?thesis
  proof (cases "match (title e) cfg")
    case (Inl exc)
    with assms(3) unseen have "r' = r" by (simp add: process_entry_def)
    with assms(1) show ?thesis by simp
  next
    case (Inr b)
    show ?thesis
    proof (cases b)
      case False
      with assms(3) unseen Inr have "r' = mark_seen (uid e) r" by (simp add: process_entry_def)
      then show ?thesis using deduped_mark_seen [OF assms(1)] by simp
    next
      case True
      from assms(1) have rel: "reliable (env r)" by (simp add: deduped_def)
      have m: "match (title e) cfg = Inr True" using Inr True by simp
      from process_entry_hit [OF unseen m rel assms(3)]
      obtain w3 where w3: "same_setting (env r) w3" "seen_file w3 = seen_file (env r)"
          "alerted w3 = alerted (env r) @ [uid e]"
          "r' = mark_seen (uid e) (r\<lparr>hits := hits r + 1, env := w3\<rparr>)"
        by blast
      have d: "deduped u n (r\<lparr>hits := hits r + 1\<rparr>)" using assms(1) by simp
      have "deduped u n (mark_seen (uid e) ((r\<lparr>hits := hits r + 1\<rparr>)\<lparr>env := w3\<rparr>))"
        using deduped_alert_mark [OF d assms(2), of "uid e" w3] unseen w3(1-3) by simp
      then show ?thesis using w3(4) by simp
    qed
  qed
qed

lemma deduped_process_entries:
  "deduped u n r \<Longrightarrow> single_line u \<Longrightarrow> process_entries cfg st name es r = (res, r') \<Longrightarrow>
   deduped u n r'"
proof (induction es arbitrary: r)
  case Nil
  then show ?case by simp
next
  case (Cons e es)
  obtain res1 r1 where p: "process_entry cfg st name e r = (res1, r1)"
    by (cases "process_entry cfg st name e r")
  have d: "deduped u n r1" using deduped_process_entry [OF Cons.prems(1,2) p] .
  show ?case
  proof (cases res1)
    case None
    with Cons.prems(3) p have "process_entries cfg st name es r1 = (res, r')" by simp
    then show ?thesis using Cons.IH [OF d Cons.prems(2)] by blast
  next
    case (Some exc)
    with Cons.prems(3) p have "r' = r1" by simp
    then show ?thesis using d by simp
  qed
qed

lemma deduped_prime_fold:
  "deduped u n r \<Longrightarrow>
   deduped u n (fold (\<lambda>e r. if uid e \<notin> seen r then mark_seen (uid e) r else r) es r)"
  by (induction es arbitrary: r) (auto simp: deduped_mark_seen)

lemma deduped_prime_seen: "deduped u n r \<Longrightarrow> deduped u n (prime_seen es r)"
  unfolding prime_seen_def by (rule deduped_prime_fold)

lemma deduped_try_source:
  assumes "deduped u n r" and "single_line u"
    and "try_source L cfg st name url r = (res, r')"
  shows "deduped u n r'"
proof (cases "fetch url (timeout_s st) (max_bytes st) (env r)")
  case (Inl exc)
  with assms show ?thesis by (simp add: try_source_def)
next
  case (Inr data)
  define es where "es = (if looks_like_html data then parse_html_links L data name url
                         else parse_feed L data name)"
  define r1 where "r1 = r\<lparr>latest_items := dict_set (latest_items r) name
                                   (JList (map as_public_item (take 10 es)))\<rparr>"
  note un = try_source_unfold [OF Inr es_def r1_def, of cfg]
  have d1: "deduped u n r1" using assms(1) by (simp add: r1_def)
  show ?thesis
  proof (cases "seen r = {} \<and> get_flag cfg ''prime_on_first_run''")
    case True
    with assms(3) un obtain m where
      r': "r' = (prime_seen es r1)\<lparr>env := log m (env (prime_seen es r1))\<rparr>"
      by auto
    show ?thesis unfolding r' using deduped_log [OF deduped_prime_seen [OF d1]] .
  next
    case False
    with assms(3) un have "process_entries cfg st name (take 80 es) r1 = (res, r')"
      by auto
    then show ?thesis using deduped_process_entries [OF d1 assms(2)] by blast
  qed
qed

lemma deduped_process_source:
  assumes "deduped u n r" and "single_line u"
    and "process_source L cfg st src r = (res, r')"
  shows "deduped u n r'"
proof (cases "as_dict (if truthy src then src else JObj [])")
  case (Inl exc)
  with assms show ?thesis by (simp add: process_source_def)
next
  case (Inr d)
  let ?name = "py_str (get_or d ''name'' (JStr ''source''))"
  let ?url = "py_str (get_or d ''url'' (JStr []))"
  show ?thesis
  proof (cases "?url = []")
    case True
    with assms Inr show ?thesis by (simp add: process_source_def Let_def)
  next
    case False
    obtain res1 r1 where t: "try_source L cfg st ?name ?url (r\<lparr>checked := checked r + 1\<rparr>) = (res1, r1)"
      by (cases "try_source L cfg st ?name ?url (r\<lparr>checked := checked r + 1\<rparr>)")
    have d1: "deduped u n r1"
      using deduped_try_source [OF _ assms(2) t] assms(1) by simp
    show ?thesis
    proof (cases res1)
      case None
      with assms(3) Inr False t have "r' = r1" by (simp add: process_source_def Let_def)
      then show ?thesis using d1 by simp
    next
      case (Some exc)
      with assms(3) Inr False t
      have "\<exists>m x. r' = r1\<lparr>last_error := x, env := log m (env r1)\<rparr>"
        by (auto simp: process_source_def Let_def)
      then obtain m x where r': "r' = r1\<lparr>last_error := x, env := log m (env r1)\<rparr>" by blast
      have "deduped u n ((r1\<lparr>last_error := x\<rparr>)\<lparr>env := log m (env (r1\<lparr>last_error := x\<rparr>))\<rparr>)"
        by (rule deduped_log) (simp add: d1)
      then show ?thesis unfolding r' by simp
    qed
  qed
qed

lemma deduped_run_sources:
  "deduped u n r \<Longrightarrow> single_line u \<Longrightarrow> run_sources L cfg st srcs r = (res, r') \<Longrightarrow>
   deduped u n r'"
proof (induction srcs arbitrary: r)
  case Nil
  then show ?case by simp
next
  case (Cons src srcs)
  obtain res1 r1 where p: "process_source L cfg st src r = (res1, r1)"
    by (cases "process_source L cfg st src r")
  have d: "deduped u n r1" using deduped_process_source [OF Cons.prems(1,2) p] .
  show ?case
  proof (cases res1)
    case None
    with Cons.prems(3) p have "run_sources L cfg st srcs r1 = (res, r')" by simp
    then show ?thesis using Cons.IH [OF d Cons.prems(2)] by blast
  next
    case (Some exc)
    with Cons.prems(3) p have "r' = r1" by simp
    then show ?thesis using d by simp
  qed
qed

lemma deduped_run_once:
  assumes "deduped u n \<lparr>env = w0, seen = sn, hits = 0, checked = 0, last_error = None,
                          latest_items = []\<rparr>"
    and "single_line u" and "run_once L cfg sn w0 = (res, r')"
  shows "deduped u n r'"
proof -
  let ?r0 = "\<lparr>env = w0, seen = sn, hits = 0, checked = 0, last_error = None, latest_items = []\<rparr>"
  show ?thesis
  proof (cases "read_settings cfg")
    case (Inl exc)
    with assms show ?thesis by (simp add: run_once_def)
  next
    case st: (Inr st)
    show ?thesis
    proof (cases "py_iter (get_or cfg ''sources'' (JList []))")
      case (Inl exc)
      with assms st show ?thesis by (simp add: run_once_def)
    next
      case (Inr sources)
      obtain res1 r1 where rs: "run_sources L cfg st sources ?r0 = (res1, r1)"
        by (cases "run_sources L cfg st sources ?r0")
      have d1: "deduped u n r1" using deduped_run_sources [OF assms(1,2) rs] .
      show ?thesis
      proof (cases res1)
        case (Some exc)
        with assms(3) st Inr rs have "r' = r1" by (simp add: run_once_def)
        then show ?thesis using d1 by simp
      next
        case None
        obtain res2 w2 where us: "update_status (final_status r1) (env r1) = (res2, w2)"
          by (cases "update_status (final_status r1) (env r1)")
        from assms(3) st Inr rs None us have r': "r' = r1\<lparr>env := w2\<rparr>"
          by (simp add: run_once_def)
        note p = update_status_pair [OF us]
        show ?thesis unfolding r' using deduped_env [OF d1 p(3) p(1) p(2)] .
      qed
    qed
  qed
qed

lemma load_seen_reliable:
  assumes "reliable w" and "load_seen w = (sn, w1)"
  shows "sn = seen_lines w" and "seen_file w1 = seen_file w" and "alerted w1 = alerted w"
    and "same_setting w w1"
  using assms
  by (auto simp: load_seen_def seen_lines_def reliable_attempt same_setting_def
           split: option.splits)

lemma deduped_cycle:
  assumes "reliable w" and "seen_log_closed w" and "single_line u"
    and "count_list (alerted w) u = n \<or> (count_list (alerted w) u = Suc n \<and> u \<in> seen_lines w)"
    and "cycle L cfg w = (res, r')"
  shows "deduped u n r'"
proof -
  obtain sn w1 where ls: "load_seen w = (sn, w1)" by (cases "load_seen w")
  note l = load_seen_reliable [OF assms(1) ls]
  have "deduped u n \<lparr>env = w1, seen = sn, hits = 0, checked = 0, last_error = None,
                          latest_items = []\<rparr>"
    using assms(1,2,4) l reliable_setting [OF assms(1) l(4)]
    by (auto simp: deduped_def seen_log_closed_def seen_lines_def)
  moreover have "run_once L cfg sn w1 = (res, r')" using assms(5) ls by (simp add: cycle_def)
  ultimately show ?thesis using deduped_run_once assms(3) by blast
qed

lemma process_entry_skips: "uid e \<in> seen r \<Longrightarrow> process_entry cfg st name e r = (None, r)"
  by (simp add: process_entry_def)

lemma process_entry_records:
  assumes "reliable (env r)" and "seen_log_closed (env r)" and "single_line (uid e)"
    and "uid e \<notin> seen r" and "process_entry cfg st name e r = (None, r')"
  shows "uid e \<in> seen r' \<and> uid e \<in> seen_lines (env r')"
proof (cases "match (title e) cfg")
  case (Inl exc)
  with assms(4,5) show ?thesis by (simp add: process_entry_def)
next
  case (Inr b)
  show ?thesis
  proof (cases b)
    case False
    with assms(4,5) Inr have r': "r' = mark_seen (uid e) r" by (simp add: process_entry_def)
    note m = mark_seen_effect [OF assms(1,2), of "uid e"]
    show ?thesis unfolding r' using m(3) m(6) [OF assms(3)] by simp
  next
    case True
    have mt: "match (title e) cfg = Inr True" using Inr True by simp
    from process_entry_hit [OF assms(4) mt assms(1) assms(5)]
    obtain w3 where w3: "same_setting (env r) w3" "seen_file w3 = seen_file (env r)"
        "r' = mark_seen (uid e) (r\<lparr>hits := hits r + 1, env := w3\<rparr>)"
      by blast
    have p: "reliable (env (r\<lparr>hits := hits r + 1, env := w3\<rparr>))"
        "seen_log_closed (env (r\<lparr>hits := hits r + 1, env := w3\<rparr>))"
      using reliable_setting [OF assms(1) w3(1)] assms(2) w3(2)
      by (simp_all add: seen_log_closed_def)
    note m = mark_seen_effect [OF p, of "uid e"]
    show ?thesis unfolding w3(3) using m(3) m(6) [OF assms(3)] by simp
  qed
qed

text \<open>
  What does hold.  Let no operation of the environment fail, let the seen log be absent,
  empty or end with a line feed, and let the uid \<open>u\<close> have no line-break character.
  Then over two consecutive cycles \<open>notify\<close> is called at most once for \<open>u\<close>: an
  entry whose uid is not yet seen and that is processed to the end, matched or not, has
  its uid in the set of seen uids and in the seen log afterwards, and an entry whose uid is
  in the set of seen uids is skipped before matching and notification.
\<close>

lemma single_line_uid_notified_once:
  assumes "reliable w0" and "seen_log_closed w0" and "single_line u"
    and "cycle L cfg1 w0 = (res1, r1)"
    and "reliable w1" and "seen_file w1 = seen_file (env r1)"
    and "alerted w1 = alerted (env r1)"
    and "cycle L cfg2 w1 = (res2, r2)"
  shows "count_list (alerted (env r2)) u \<le> count_list (alerted w0) u + 1 \<and>
         (\<forall>st name e r r'.
            reliable (env r) \<and> seen_log_closed (env r) \<and> single_line (uid e) \<and>
            uid e \<notin> seen r \<and> process_entry cfg1 st name e r = (None, r')
            \<longrightarrow> uid e \<in> seen r' \<and> uid e \<in> seen_lines (env r')) \<and>
         (\<forall>st name e r. uid e \<in> seen r \<longrightarrow> process_entry cfg2 st name e r = (None, r))"
proof -
  define n where "n = count_list (alerted w0) u"
  have d1: "deduped u n r1"
    using deduped_cycle [OF assms(1,2,3) _ assms(4), of n] by (simp add: n_def)
  then have c1: "seen_log_closed (env r1)"
    and k1: "count_list (alerted (env r1)) u = n \<or>
             (count_list (alerted (env r1)) u = Suc n \<and> u \<in> seen_lines (env r1))"
    by (auto simp: deduped_def)
  have c1': "seen_log_closed w1" using c1 assms(6) by (simp add: seen_log_closed_def)
  have k1': "count_list (alerted w1) u = n \<or>
             (count_list (alerted w1) u = Suc n \<and> u \<in> seen_lines w1)"
    using k1 assms(6,7) by (simp add: seen_lines_def)
  have "deduped u n r2"
    using deduped_cycle [OF assms(5) c1' assms(3) k1' assms(8)] .
  then have "count_list (alerted (env r2)) u \<le> n + 1" by (auto simp: deduped_def)
  then show ?thesis
    unfolding n_def using process_entry_records process_entry_skips by blast
qed

lemma two_line_world_facts:
  "reliable two_line_world" "seen_log_closed two_line_world"
  by (simp_all add: reliable_def two_line_world_def later_world_def sample_world_def
      seen_log_closed_def)

lemma two_line_runs:
  "(case cycle two_line_lib only_b_config two_line_world of
      (res1, r1) \<Rightarrow>
        (res1, map uid (parse_feed two_line_lib feed_c ''rbb24''), alerted (env r1),
         seen_file (env r1), (''x'' @ [CHR 0x0A] @ ''y'') \<in> seen_lines (env r1),
         (case cycle two_line_lib only_b_config (env r1) of
            (res2, r2) \<Rightarrow> (res2, alerted (env r2))))) =
   (None, [''x'' @ [CHR 0x0A] @ ''y''], [''x'' @ [CHR 0x0A] @ ''y''],
    Some (''old'' @ [CHR 0x0A] @ ''x'' @ [CHR 0x0A] @ ''y'' @ [CHR 0x0A]), False,
    None, [''x'' @ [CHR 0x0A] @ ''y'', ''x'' @ [CHR 0x0A] @ ''y''])"
  by code_simp

text \<open>
  C4, at a failing input: nothing fails in the environment, and the only item of the feed
  has a \<open>guid\<close> of two lines.  \<open>text_of\<close> strips only the ends, so the uid has a
  line feed inside.  The first cycle notifies the entry and appends the uid to the seen
  log, where it makes two lines; the second cycle reads two uids back, neither of which is
  the uid of the entry, and notifies the same entry again.
\<close>

theorem two_line_uid_renotified:
  "reliable two_line_world \<and> seen_log_closed two_line_world \<and>
   map uid (parse_feed two_line_lib feed_c ''rbb24'') = [''x'' @ [CHR 0x0A] @ ''y''] \<and>
   fst (cycle two_line_lib only_b_config two_line_world) = None \<and>
   alerted (env (snd (cycle two_line_lib only_b_config two_line_world))) =
     [''x'' @ [CHR 0x0A] @ ''y''] \<and>
   seen_file (env (snd (cycle two_line_lib only_b_config two_line_world))) =
     Some (''old'' @ [CHR 0x0A] @ ''x'' @ [CHR 0x0A] @ ''y'' @ [CHR 0x0A]) \<and>
   (''x'' @ [CHR 0x0A] @ ''y'') \<notin>
     seen_lines (env (snd (cycle two_line_lib only_b_config two_line_world))) \<and>
   fst (cycle two_line_lib only_b_config
          (env (snd (cycle two_line_lib only_b_config two_line_world)))) = None \<and>
   count_list
     (alerted (env (snd (cycle two_line_lib only_b_config
                           (env (snd (cycle two_line_lib only_b_config two_line_world)))))))
     (''x'' @ [CHR 0x0A] @ ''y'') = 2"
  using two_line_runs two_line_world_facts by (simp add: case_prod_beta)

section \<open>What a cycle reports\<close>

lemma mark_seen_counts [simp]:
  "checked (mark_seen u r) = checked r" "last_error (mark_seen u r) = last_error r"
  by (simp_all add: mark_seen_def)

lemma prime_fold_counts:
  "checked (fold (\<lambda>e r. if uid e \<notin> seen r then mark_seen (uid e) r else r) es r) = checked r \<and>
   last_error (fold (\<lambda>e r. if uid e \<notin> seen r then mark_seen (uid e) r else r) es r) = last_error r"
  by (induction es arbitrary: r) auto

lemma prime_seen_counts [simp]:
  "checked (prime_seen es r) = checked r" "last_error (prime_seen es r) = last_error r"
  using prime_fold_counts [of "take 50 es" r] by (simp_all add: prime_seen_def)

lemma process_entry_counts:
  assumes "process_entry cfg st name e r = (res, r')"
  shows "checked r' = checked r \<and> last_error r' = last_error r"
  using assms
  by (auto simp: process_entry_def Let_def
           split: if_splits sum.splits bool.splits prod.splits option.splits)

lemma process_entries_counts:
  "process_entries cfg st name es r = (res, r') \<Longrightarrow>
   checked r' = checked r \<and> last_error r' = last_error r"
proof (induction es arbitrary: r)
  case Nil
  then show ?case by simp
next
  case (Cons e es)
  obtain res1 r1 where p: "process_entry cfg st name e r = (res1, r1)"
    by (cases "process_entry cfg st name e r")
  note c = process_entry_counts [OF p]
  show ?case
  proof (cases res1)
    case None
    with Cons.prems p have "process_entries cfg st name es r1 = (res, r')" by simp
    from Cons.IH [OF this] c show ?thesis by simp
  next
    case (Some exc)
    with Cons.prems p have "r' = r1" by simp
    with c show ?thesis by simp
  qed
qed

lemma try_source_counts:
  assumes "try_source L cfg st name url r = (res, r')"
  shows "checked r' = checked r \<and> last_error r' = last_error r"
proof (cases "fetch url (timeout_s st) (max_bytes st) (env r)")
  case (Inl exc)
  with assms show ?thesis by (simp add: try_source_def)
next
  case (Inr data)
  define es where "es = (if looks_like_html data then parse_html_links L data name url
                         else parse_feed L data name)"
  define r1 where "r1 = r\<lparr>latest_items := dict_set (latest_items r) name
                                   (JList (map as_public_item (take 10 es)))\<rparr>"
  note un = try_source_unfold [OF Inr es_def r1_def, of cfg]
  show ?thesis
  proof (cases "seen r = {} \<and> get_flag cfg ''prime_on_first_run''")
    case True
    with assms un obtain m where
      r': "r' = (prime_seen es r1)\<lparr>env := log m (env (prime_seen es r1))\<rparr>"
      by auto
    show ?thesis unfolding r' by (simp add: r1_def)
  next
    case False
    with assms un have "process_entries cfg st name (take 80 es) r1 = (res, r')" by auto
    from process_entries_counts [OF this] show ?thesis by (simp add: r1_def)
  qed
qed

lemma process_source_counts:
  assumes "process_source L cfg st src r = (None, r')"
  shows "checked r' = checked r + (if has_url src then 1 else 0) \<and>
         (last_error r \<noteq> None \<longrightarrow> last_error r' \<noteq> None)"
proof (cases "as_dict (if truthy src then src else JObj [])")
  case (Inl exc)
  with assms show ?thesis by (simp add: process_source_def)
next
  case (Inr d)
  let ?name = "py_str (get_or d ''name'' (JStr ''source''))"
  let ?url = "py_str (get_or d ''url'' (JStr []))"
  show ?thesis
  proof (cases "?url = []")
    case True
    with assms Inr show ?thesis by (simp add: process_source_def Let_def has_url_def)
  next
    case False
    then have h: "has_url src" using Inr by (simp add: has_url_def)
    obtain res1 r1 where t: "try_source L cfg st ?name ?url (r\<lparr>checked := checked r + 1\<rparr>) = (res1, r1)"
      by (cases "try_source L cfg st ?name ?url (r\<lparr>checked := checked r + 1\<rparr>)")
    note c = try_source_counts [OF t]
    show ?thesis
    proof (cases res1)
      case None
      with assms Inr False t have "r' = r1" by (simp add: process_source_def Let_def)
      with c h show ?thesis by simp
    next
      case (Some exc)
      with assms Inr False t
      have "\<exists>m x. r' = r1\<lparr>last_error := Some x, env := log m (env r1)\<rparr>"
        by (auto simp: process_source_def Let_def)
      then obtain m x where r': "r' = r1\<lparr>last_error := Some x, env := log m (env r1)\<rparr>" by blast
      show ?thesis unfolding r' using c h by simp
    qed
  qed
qed

lemma run_sources_counts:
  "run_sources L cfg st srcs r = (None, r') \<Longrightarrow>
   checked r' = checked r + int (length (filter has_url srcs)) \<and>
   (last_error r \<noteq> None \<longrightarrow> last_error r' \<noteq> None)"
proof (induction srcs arbitrary: r)
  case Nil
  then show ?case by simp
next
  case (Cons src srcs)
  obtain res1 r1 where p: "process_source L cfg st src r = (res1, r1)"
    by (cases "process_source L cfg st src r")
  show ?case
  proof (cases res1)
    case None
    with Cons.prems p have rest: "run_sources L cfg st srcs r1 = (None, r')" by simp
    from p None have "process_source L cfg st src r = (None, r1)" by simp
    from process_source_counts [OF this] Cons.IH [OF rest] show ?thesis by auto
  next
    case (Some exc)
    with Cons.prems p show ?thesis by simp
  qed
qed

subsection \<open>Sources that do not fail\<close>

lemma process_entry_completes:
  assumes "reliable (env r)" and "\<forall>ttl. \<exists>b. match ttl cfg = Inr b"
  shows "fst (process_entry cfg st name e r) = None"
proof (cases "uid e \<in> seen r")
  case True
  then show ?thesis by (simp add: process_entry_def)
next
  case unseen: False
  from assms(2) obtain b where m: "match (title e) cfg = Inr b" by blast
  show ?thesis
  proof (cases b)
    case False
    with unseen m show ?thesis by (simp add: process_entry_def)
  next
    case True
    obtain res r' where p: "process_entry cfg st name e r = (res, r')"
      by (cases "process_entry cfg st name e r")
    have mt: "match (title e) cfg = Inr True" using m True by simp
    from process_entry_hit [OF unseen mt assms(1) p] have "res = None" by blast
    with p show ?thesis by simp
  qed
qed

lemma process_entries_completes:
  "reliable (env r) \<Longrightarrow> \<forall>ttl. \<exists>b. match ttl cfg = Inr b \<Longrightarrow>
   fst (process_entries cfg st name es r) = None"
proof (induction es arbitrary: r)
  case Nil
  then show ?case by simp
next
  case (Cons e es)
  obtain res1 r1 where p: "process_entry cfg st name e r = (res1, r1)"
    by (cases "process_entry cfg st name e r")
  have n: "res1 = None" using process_entry_completes [OF Cons.prems, of st name e] p by simp
  have "reliable (env r1)"
    using reliable_setting [OF Cons.prems(1)] process_entry_setting [OF p, of "env r"] by simp
  from Cons.IH [OF this Cons.prems(2)] p n show ?case by simp
qed

lemma try_source_completes:
  assumes "reliable (env r)" and "\<forall>ttl. \<exists>b. match ttl cfg = Inr b"
    and "fetch url (timeout_s st) (max_bytes st) (env r) = Inr data"
  shows "fst (try_source L cfg st name url r) = None"
proof -
  define es where "es = (if looks_like_html data then parse_html_links L data name url
                         else parse_feed L data name)"
  define r1 where "r1 = r\<lparr>latest_items := dict_set (latest_items r) name
                                   (JList (map as_public_item (take 10 es)))\<rparr>"
  note un = try_source_unfold [OF assms(3) es_def r1_def, of cfg]
  have "reliable (env r1)" using assms(1) by (simp add: r1_def)
  from process_entries_completes [OF this assms(2)] show ?thesis
    unfolding un by simp
qed

lemma fetch_setting: "same_setting w w' \<Longrightarrow> fetch url t m w' = fetch url t m w"
  by (simp add: fetch_def same_setting_def)

lemma fetch_ok_setting: "same_setting w w' \<Longrightarrow> fetch_ok w' st s = fetch_ok w st s"
  unfolding fetch_ok_def by (simp only: fetch_setting)

lemma process_source_quiet:
  assumes "reliable (env r)" and "\<forall>ttl. \<exists>b. match ttl cfg = Inr b"
    and "fetch_ok (env r) st src"
  shows "fst (process_source L cfg st src r) = None \<and>
         last_error (snd (process_source L cfg st src r)) = last_error r"
proof (cases "as_dict (if truthy src then src else JObj [])")
  case (Inl exc)
  with assms(3) show ?thesis by (simp add: fetch_ok_def)
next
  case (Inr d)
  let ?name = "py_str (get_or d ''name'' (JStr ''source''))"
  let ?url = "py_str (get_or d ''url'' (JStr []))"
  show ?thesis
  proof (cases "?url = []")
    case True
    with Inr show ?thesis by (simp add: process_source_def Let_def)
  next
    case False
    with assms(3) Inr obtain data where
      f: "fetch ?url (timeout_s st) (max_bytes st) (env r) = Inr data"
      by (auto simp: fetch_ok_def split: sum.splits)
    let ?r = "r\<lparr>checked := checked r + 1\<rparr>"
    obtain res1 r1 where t: "try_source L cfg st ?name ?url ?r = (res1, r1)"
      by (cases "try_source L cfg st ?name ?url ?r")
    have "fst (try_source L cfg st ?name ?url ?r) = None"
      by (rule try_source_completes [where data = data]) (use assms(1,2) f in simp_all)
    with t have n: "res1 = None" by simp
    have "last_error r1 = last_error r" using try_source_counts [OF t] by simp
    with Inr False t n show ?thesis by (simp add: process_source_def Let_def)
  qed
qed

lemma run_sources_quiet:
  "reliable (env r) \<Longrightarrow> \<forall>ttl. \<exists>b. match ttl cfg = Inr b \<Longrightarrow>
   \<forall>s\<in>set srcs. fetch_ok (env r) st s \<Longrightarrow>
   fst (run_sources L cfg st srcs r) = None \<and>
   last_error (snd (run_sources L cfg st srcs r)) = last_error r"
proof (induction srcs arbitrary: r)
  case Nil
  then show ?case by simp
next
  case (Cons src srcs)
  obtain res1 r1 where p: "process_source L cfg st src r = (res1, r1)"
    by (cases "process_source L cfg st src r")
  have q: "res1 = None" "last_error r1 = last_error r"
    using process_source_quiet [OF Cons.prems(1,2), of st src L] Cons.prems(3) p by simp_all
  have s: "same_setting (env r) (env r1)" using process_source_setting [OF p, of "env r"] by simp
  have r1: "reliable (env r1)" using reliable_setting [OF Cons.prems(1) s] .
  have ok: "\<forall>s\<in>set srcs. fetch_ok (env r1) st s"
    using Cons.prems(3) fetch_ok_setting [OF s] by simp
  from Cons.IH [OF r1 Cons.prems(2) ok] p q show ?case by simp
qed

lemma update_status_sets:
  assumes "update_status kw w = (None, w')" and "distinct (map fst kw)"
  shows "\<exists>merged. files w' STATUS_PATH = Some (Parsed (JObj merged)) \<and>
                  (\<forall>k v. map_of kw k = Some v \<longrightarrow> map_of merged k = Some v)"
proof -
  obtain base w1 where b: "(if files w STATUS_PATH \<noteq> None then safe_read_json STATUS_PATH w
                            else ([], w)) = (base, w1)"
    by (cases "if files w STATUS_PATH \<noteq> None then safe_read_json STATUS_PATH w else ([], w)")
  from assms(1) b have "write_json_atomic STATUS_PATH (dict_update base kw) w1 = (None, w')"
    by (simp add: update_status_def)
  from write_json_atomic_result [OF this]
  have "files w' STATUS_PATH = Some (Parsed (JObj (dict_update base kw)))" by simp
  moreover have "\<forall>k v. map_of kw k = Some v \<longrightarrow> map_of (dict_update base kw) k = Some v"
    by (simp add: map_of_dict_update [OF assms(2)])
  ultimately show ?thesis by blast
qed

lemma final_status_fields:
  "distinct (map fst (final_status r))"
  "map_of (final_status r) ''checked_sources'' = Some (JInt (checked r))"
  "last_error r = Some m \<Longrightarrow> map_of (final_status r) ''last_error'' = Some (JStr m)"
  by (simp_all add: final_status_def)

text \<open>
  C5.  Let the sources of a cycle be \<open>pre\<close>, then \<open>src\<close>, then \<open>post\<close>, let
  \<open>src\<close> have a URL for which the read delivers more than \<open>max_feed_bytes\<close>
  bytes, and let the sources before it be done in state \<open>r1\<close>.  Then \<open>fetch\<close> fails
  for \<open>src\<close> with \<open>feed_too_large\<close>; processing \<open>src\<close> raises nothing and changes
  the state only in three places: \<open>checked\<close> is one more, \<open>last_error\<close> is the name
  and the error, and the log has a warning; and \<open>run_once\<close> goes on from that state
  with the sources after it and then with the status update at the end of the cycle.
  When the cycle completes, the status file reports as \<open>checked_sources\<close> the number
  of all sources with a URL, \<open>src\<close> among them, and reports an error as
  \<open>last_error\<close>; when nothing fails in the environment, \<open>match\<close> raises for no
  title and every later source can be fetched, the cycle does complete and the reported
  \<open>last_error\<close> is the one of \<open>src\<close>.
\<close>

theorem oversized_feed_is_isolated:
  assumes "read_settings cfg = Inr st"
    and "py_iter (get_or cfg ''sources'' (JList [])) = Inr (pre @ src # post)"
    and "as_dict (if truthy src then src else JObj []) = Inr d"
    and "name = py_str (get_or d ''name'' (JStr ''source''))"
    and "url = py_str (get_or d ''url'' (JStr []))"
    and "url \<noteq> []"
    and "net w0 url (timeout_s st) (max_bytes st + 1) = Inr body"
    and "max_bytes st < int (length body)"
    and "run_sources L cfg st pre
           \<lparr>env = w0, seen = sn, hits = 0, checked = 0, last_error = None, latest_items = []\<rparr>
         = (None, r1)"
    and "r2 = r1\<lparr>checked := checked r1 + 1,
                  last_error := Some (name @ '': feed_too_large''),
                  env := log (''warn: '' @ name @ '': feed_too_large'') (env r1)\<rparr>"
    and "run_once L cfg sn w0 = (res, r')"
  shows "fetch url (timeout_s st) (max_bytes st) (env r1) = Inl (ValueError ''feed_too_large'') \<and>
         process_source L cfg st src r1 = (None, r2) \<and>
         run_once L cfg sn w0 =
           (case run_sources L cfg st post r2 of
              (Some exc, r) \<Rightarrow> (Some exc, r)
            | (None, r) \<Rightarrow>
                (case update_status (final_status r) (env r) of
                   (res, w') \<Rightarrow> (res, r\<lparr>env := w'\<rparr>))) \<and>
         has_url src \<and>
         (res = None \<longrightarrow>
            (\<exists>merged m.
               files (env r') STATUS_PATH = Some (Parsed (JObj merged)) \<and>
               map_of merged ''checked_sources'' =
                 Some (JInt (int (length (filter has_url (pre @ src # post))))) \<and>
               map_of merged ''last_error'' = Some (JStr m) \<and>
               (reliable w0 \<and> (\<forall>ttl. \<exists>b. match ttl cfg = Inr b) \<and>
                (\<forall>s\<in>set post. fetch_ok w0 st s)
                \<longrightarrow> m = name @ '': feed_too_large''))) \<and>
         (reliable w0 \<and> (\<forall>ttl. \<exists>b. match ttl cfg = Inr b) \<and> (\<forall>s\<in>set post. fetch_ok w0 st s)
            \<longrightarrow> res = None)"
proof -
  let ?r0 = "\<lparr>env = w0, seen = sn, hits = 0, checked = 0, last_error = None, latest_items = []\<rparr>"
  let ?msg = "name @ '': feed_too_large''"
  have s1: "same_setting w0 (env r1)"
    using run_sources_setting [OF assms(9), of w0] by simp
  then have n: "net (env r1) url (timeout_s st) (max_bytes st + 1) = Inr body"
    using assms(7) by (simp add: same_setting_def)
  have f: "fetch url (timeout_s st) (max_bytes st) (env r1) = Inl (ValueError ''feed_too_large'')"
    using fetch_too_large [OF n assms(8)] .
  have p: "process_source L cfg st src r1 = (None, r2)"
    using process_source_too_large [OF assms(3), of r1 st body L cfg] assms(4,5,6,8,10) n
    by simp
  have "run_sources L cfg st (pre @ src # post) ?r0 = run_sources L cfg st post r2"
    using assms(9) p by (simp add: run_sources_append)
  then have eq: "run_once L cfg sn w0 =
           (case run_sources L cfg st post r2 of
              (Some exc, r) \<Rightarrow> (Some exc, r)
            | (None, r) \<Rightarrow>
                (case update_status (final_status r) (env r) of
                   (res, w') \<Rightarrow> (res, r\<lparr>env := w'\<rparr>)))"
    using assms(1,2) by (simp add: run_once_def Let_def)
  have h: "has_url src" using assms(3,5,6) by (simp add: has_url_def)
  obtain ra r3 where rs: "run_sources L cfg st post r2 = (ra, r3)"
    by (cases "run_sources L cfg st post r2")
  obtain rb w3 where us: "update_status (final_status r3) (env r3) = (rb, w3)"
    by (cases "update_status (final_status r3) (env r3)")
  have s2: "same_setting w0 (env r2)"
    using same_setting_trans [OF s1 log_frame(6)] by (simp add: assms(10))
  have le2: "last_error r2 = Some ?msg" by (simp add: assms(10))
  have quiet: "ra = None \<and> last_error r3 = Some ?msg \<and> rb = None"
    if g: "reliable w0 \<and> (\<forall>ttl. \<exists>b. match ttl cfg = Inr b) \<and> (\<forall>s\<in>set post. fetch_ok w0 st s)"
  proof -
    have rel2: "reliable (env r2)" using reliable_setting [OF _ s2] g by blast
    have ok: "\<forall>s\<in>set post. fetch_ok (env r2) st s" using g fetch_ok_setting [OF s2] by simp
    from run_sources_quiet [OF rel2 _ ok, of cfg L] g rs
    have a: "ra = None" and b: "last_error r3 = Some ?msg" using le2 by simp_all
    have "same_setting (env r2) (env r3)" using run_sources_setting [OF rs, of "env r2"] by simp
    then have "reliable (env r3)" using reliable_setting [OF rel2] by blast
    from update_status_reliable [OF this, of "final_status r3"] us have "rb = None" by simp
    with a b show ?thesis by simp
  qed
  have fin: "res = rb \<and> r' = r3\<lparr>env := w3\<rparr>" if "ra = None"
    using assms(11) eq rs us that by simp
  have reported: "\<exists>merged m.
               files (env r') STATUS_PATH = Some (Parsed (JObj merged)) \<and>
               map_of merged ''checked_sources'' =
                 Some (JInt (int (length (filter has_url (pre @ src # post))))) \<and>
               map_of merged ''last_error'' = Some (JStr m) \<and>
               (reliable w0 \<and> (\<forall>ttl. \<exists>b. match ttl cfg = Inr b) \<and>
                (\<forall>s\<in>set post. fetch_ok w0 st s)
                \<longrightarrow> m = name @ '': feed_too_large'')"
    if none: "res = None"
  proof -
    have ra: "ra = None"
    proof (cases ra)
      case None then show ?thesis .
    next
      case (Some exc)
      with assms(11) eq rs have "res = Some exc" by simp
      with none show ?thesis by simp
    qed
    from fin [OF ra] none have rb: "rb = None" and r': "r' = r3\<lparr>env := w3\<rparr>" by simp_all
    from rs ra have rs': "run_sources L cfg st post r2 = (None, r3)" by simp
    note c3 = run_sources_counts [OF rs']
    note c1 = run_sources_counts [OF assms(9)]
    have ch: "checked r3 = int (length (filter has_url (pre @ src # post)))"
      using c3 c1 h by (simp add: assms(10))
    from c3 le2 obtain m where m: "last_error r3 = Some m" by auto
    from us rb have "update_status (final_status r3) (env r3) = (None, w3)" by simp
    from update_status_sets [OF this final_status_fields(1)]
    obtain merged where mg: "files w3 STATUS_PATH = Some (Parsed (JObj merged))"
      and mp: "\<forall>k v. map_of (final_status r3) k = Some v \<longrightarrow> map_of merged k = Some v"
      by blast
    have a: "files (env r') STATUS_PATH = Some (Parsed (JObj merged))" using mg r' by simp
    have b: "map_of merged ''checked_sources'' =
               Some (JInt (int (length (filter has_url (pre @ src # post)))))"
      using mp final_status_fields(2) [of r3] ch by simp
    have c: "map_of merged ''last_error'' = Some (JStr m)"
      using mp final_status_fields(3) [OF m] by simp
    have d: "reliable w0 \<and> (\<forall>ttl. \<exists>b. match ttl cfg = Inr b) \<and>
                (\<forall>s\<in>set post. fetch_ok w0 st s) \<longrightarrow> m = name @ '': feed_too_large''"
      using quiet m by auto
    from a b c d show ?thesis by blast
  qed
  have compl: "reliable w0 \<and> (\<forall>ttl. \<exists>b. match ttl cfg = Inr b) \<and> (\<forall>s\<in>set post. fetch_ok w0 st s)
            \<longrightarrow> res = None"
    using quiet fin by auto
  from f p eq h reported compl show ?thesis by blast
qed

lemma capped_config_facts:
  "read_settings capped_config = Inr capped_settings"
  "py_iter (get_or capped_config ''sources'' (JList [])) = Inr ([] @ source_b # [source_a])"
  "as_dict (if truthy source_b then source_b else JObj []) =
     Inr [(''name'', JStr ''rbb24''), (''url'', JStr url_b)]"
  "py_str (get_or [(''name'', JStr ''rbb24''), (''url'', JStr url_b)] ''url'' (JStr [])) \<noteq> []"
  "net sample_world (py_str (get_or [(''name'', JStr ''rbb24''), (''url'', JStr url_b)] ''url'' (JStr [])))
     (timeout_s capped_settings) (max_bytes capped_settings + 1) = Inr (take 101 feed_b)"
  "max_bytes capped_settings < int (length (take 101 feed_b))"
  "fetch_ok sample_world capped_settings source_a"
  "int (length (filter has_url ([] @ source_b # [source_a]))) = 2"
  "py_str (get_or [(''name'', JStr ''rbb24''), (''url'', JStr url_b)] ''name'' (JStr ''source'')) @
     '': feed_too_large'' = ''rbb24: feed_too_large''"
  "as_dict (get_or capped_config ''match_logic'' (JObj [])) = Inr sample_logic"
  by code_simp+

theorem oversized_feed_is_isolated_witness:
  "read_settings capped_config = Inr capped_settings \<and>
   py_iter (get_or capped_config ''sources'' (JList [])) = Inr ([] @ source_b # [source_a]) \<and>
   as_dict (if truthy source_b then source_b else JObj []) =
     Inr [(''name'', JStr ''rbb24''), (''url'', JStr url_b)] \<and>
   max_bytes capped_settings < int (length (take 101 feed_b)) \<and>
   reliable sample_world \<and>
   fetch_ok sample_world capped_settings source_a \<and>
   fst (run_once sample_lib capped_config {} sample_world) = None \<and>
   (\<exists>merged.
      files (env (snd (run_once sample_lib capped_config {} sample_world))) STATUS_PATH =
        Some (Parsed (JObj merged)) \<and>
      map_of merged ''checked_sources'' = Some (JInt 2) \<and>
      map_of merged ''last_error'' = Some (JStr ''rbb24: feed_too_large''))"
proof -
  let ?d = "[(''name'', JStr ''rbb24''), (''url'', JStr url_b)]"
  let ?r0 = "\<lparr>env = sample_world, seen = {}, hits = 0, checked = 0, last_error = None,
              latest_items = []\<rparr>"
  let ?run = "run_once sample_lib capped_config {} sample_world"
  note c = capped_config_facts
  have h9: "run_sources sample_lib capped_config capped_settings [] ?r0 = (None, ?r0)" by simp
  have run: "?run = (fst ?run, snd ?run)" by simp
  have rel: "reliable sample_world" by (simp add: reliable_def sample_world_def)
  have total: "\<forall>ttl. \<exists>b. match ttl capped_config = Inr b"
    using match_decision [OF c(10) sample_logic_facts(2,3,4)] by blast
  have ok: "\<forall>s\<in>set [source_a]. fetch_ok sample_world capped_settings s" using c(7) by simp
  note t = oversized_feed_is_isolated [OF c(1) c(2) c(3) refl refl c(4) c(5) c(6) h9 refl run]
  from t rel total ok have n: "fst ?run = None" by blast
  from t n obtain merged m where
    m1: "files (env (snd ?run)) STATUS_PATH = Some (Parsed (JObj merged))" and
    m2: "map_of merged ''checked_sources'' =
           Some (JInt (int (length (filter has_url ([] @ source_b # [source_a])))))" and
    m3: "map_of merged ''last_error'' = Some (JStr m)" and
    m4: "reliable sample_world \<and> (\<forall>ttl. \<exists>b. match ttl capped_config = Inr b) \<and>
         (\<forall>s\<in>set [source_a]. fetch_ok sample_world capped_settings s)
         \<longrightarrow> m = py_str (get_or ?d ''name'' (JStr ''source'')) @ '': feed_too_large''"
    by blast
  have "m = ''rbb24: feed_too_large''" using m4 rel total ok c(9) by simp
  with m1 m2 m3 c(8) have "\<exists>merged.
      files (env (snd ?run)) STATUS_PATH = Some (Parsed (JObj merged)) \<and>
      map_of merged ''checked_sources'' = Some (JInt 2) \<and>
      map_of merged ''last_error'' = Some (JStr ''rbb24: feed_too_large'')"
    by auto
  with c(1,2,3,6,7) rel n show ?thesis by simp
qed

end
